theory Spec2Isabelle
  imports Main "HOL-Library.Sublist"
begin

chapter \<open>A model of postcss-at-js\<close>

text \<open>
  The development follows the sources file by file: \<^verbatim>\<open>utils.ts\<close>, \<^verbatim>\<open>script.ts\<close>,
  \<^verbatim>\<open>syntax.ts\<close>, \<^verbatim>\<open>runtime.ts\<close> and \<^verbatim>\<open>compile.ts\<close>.  JavaScript strings are
  modelled by \<^typ>\<open>string\<close>, one \<^typ>\<open>char\<close> for each code unit (code units above 255 cannot
  be written).  What the host supplies (the JavaScript parser behind \<^verbatim>\<open>Function\<close>, acorn,
  \<^verbatim>\<open>util.inspect\<close>, postcss' comma splitter, the behaviour of guest code and of guest
  functions) is a parameter of the definitions that use it.
\<close>

section \<open>Strings and regular expressions\<close>

definition backslash :: char where
  "backslash = CHR 0x5C"

definition squote :: char where
  "squote = CHR 0x27"

definition dquote :: char where
  "dquote = CHR 0x22"

text \<open>The dot of a JavaScript regular expression matches everything but a line terminator.\<close>

definition is_line_terminator :: "char \<Rightarrow> bool" where
  "is_line_terminator c \<longleftrightarrow> c = CHR 0x0A \<or> c = CHR 0x0D"

text \<open>The class \<^verbatim>\<open>[\t\n\f\r ]\<close> of the at-rule key and the class \<^verbatim>\<open>\s\<close>.\<close>

definition css_space :: "char \<Rightarrow> bool" where
  "css_space c \<longleftrightarrow> c \<in> set [CHR 0x09, CHR 0x0A, CHR 0x0C, CHR 0x0D, CHR 0x20]"

definition js_space :: "char \<Rightarrow> bool" where
  "js_space c \<longleftrightarrow> c \<in> set [CHR 0x09, CHR 0x0A, CHR 0x0B, CHR 0x0C, CHR 0x0D, CHR 0x20, CHR 0xA0]"

text \<open>The class \<^verbatim>\<open>["#'()/;[\\\]{}]\<close>.\<close>

definition css_meta :: "char \<Rightarrow> bool" where
  "css_meta c \<longleftrightarrow> c \<in> set [dquote, CHR ''#'', squote, CHR ''('', CHR '')'', CHR ''/'',
     CHR '';'', CHR ''['', backslash, CHR '']'', CHR ''{'', CHR ''}'']"

text \<open>
  \<^verbatim>\<open>String.prototype.indexOf\<close>: the least index at which the pattern occurs; \<open>None\<close>
  stands for the result \<open>-1\<close>.
\<close>

fun indexOf :: "string \<Rightarrow> string \<Rightarrow> nat option" where
  "indexOf pat [] = (if pat = [] then Some 0 else None)"
| "indexOf pat (c # cs) =
     (if prefix pat (c # cs) then Some 0 else map_option Suc (indexOf pat cs))"

text \<open>\<^verbatim>\<open>s.indexOf(pat, from)\<close> as a JavaScript number, \<open>-1\<close> when there is no occurrence.\<close>

definition indexOf_from :: "string \<Rightarrow> string \<Rightarrow> int \<Rightarrow> int" where
  "indexOf_from s pat frm =
     (let k = (if frm < 0 then 0 else min (nat frm) (length s))
      in case indexOf pat (drop k s) of None \<Rightarrow> - 1 | Some i \<Rightarrow> int (k + i))"

text \<open>\<^verbatim>\<open>String.prototype.slice\<close>, negative indices counted from the end.\<close>

definition js_index :: "nat \<Rightarrow> int \<Rightarrow> nat" where
  "js_index len i = (if i < 0 then nat (int len + i) else min (nat i) len)"

definition slice :: "string \<Rightarrow> int \<Rightarrow> int \<Rightarrow> string" where
  "slice s a b = take (js_index (length s) b - js_index (length s) a) (drop (js_index (length s) a) s)"

definition slice_from :: "string \<Rightarrow> int \<Rightarrow> string" where
  "slice_from s a = drop (js_index (length s) a) s"

definition startsWith :: "string \<Rightarrow> string \<Rightarrow> bool" where
  "startsWith s p \<longleftrightarrow> prefix p s"

definition endsWith :: "string \<Rightarrow> string \<Rightarrow> bool" where
  "endsWith s p \<longleftrightarrow> suffix p s"

subsection \<open>The mask of \<^verbatim>\<open>checkInvalidAtJs\<close>\<close>

text \<open>
  The regular expression \<^verbatim>\<open>(?<!\\)(?:'(?:[^\\']+|\\.)*'|"(?:[^\\"]+|\\.)*")\<close>.
  \<open>match_body q cs\<close> matches \<^verbatim>\<open>(?:[^\\q]+|\\.)*q\<close> at the head of \<open>cs\<close> and returns the
  number of characters consumed, the closing quote included.  A backslash is only ever
  consumed together with the character after it, which the dot refuses when it is a line
  terminator; a character other than the quote and the backslash is consumed alone.  So
  the body has one reading and backtracking finds no other match.
\<close>

fun match_body :: "char \<Rightarrow> string \<Rightarrow> nat option" where
  "match_body q [] = None"
| "match_body q (c # cs) =
     (if c = q then Some 1
      else if c = backslash then
        (case cs of
           [] \<Rightarrow> None
         | d # ds \<Rightarrow> if is_line_terminator d then None
                    else map_option (\<lambda>n. n + 2) (match_body q ds))
      else map_option Suc (match_body q cs))"

text \<open>
  \<^verbatim>\<open>src.replace(re, mask)\<close> with the global flag: the matches are found from left to
  right and do not overlap, each is replaced by as many stars as it has characters.  The
  flag says whether the character before the current one is a backslash (the lookbehind).
\<close>

fun mask_from :: "bool \<Rightarrow> string \<Rightarrow> string" where
  "mask_from prev_bs [] = []"
| "mask_from prev_bs (c # cs) =
     (if (c = squote \<or> c = dquote) \<and> \<not> prev_bs then
        (case match_body c cs of
           Some n \<Rightarrow> replicate (Suc n) (CHR ''*'') @ mask_from False (drop n cs)
         | None \<Rightarrow> c # mask_from False cs)
      else c # mask_from (c = backslash) cs)"

definition mask_strings :: "string \<Rightarrow> string" where
  "mask_strings src = mask_from False src"

subsection \<open>The keys of interpreted objects and the marker of a declaration value\<close>

text \<open>
  \<^verbatim>\<open>/[\t\n\f\r ]+|(?=["#'()/;[\\\]{}])/.exec(src)\<close>: the first position where a run of
  white space starts or a meta character stands; the result is the index and the length
  of the match (the lookahead matches the empty string).
\<close>

fun exec_name_end :: "string \<Rightarrow> (nat \<times> nat) option" where
  "exec_name_end [] = None"
| "exec_name_end (c # cs) =
     (if css_space c then Some (0, length (takeWhile css_space (c # cs)))
      else if css_meta c then Some (0, 0)
      else map_option (\<lambda>(i, n). (Suc i, n)) (exec_name_end cs))"

text \<open>
  \<^verbatim>\<open>/^@js(?:\s+|(?=["#'()/;[\\\]{}])|$)/.exec(value)\<close>: the length of the match.
\<close>

definition exec_value_marker :: "string \<Rightarrow> nat option" where
  "exec_value_marker v =
     (if prefix ''@js'' v then
        (case drop 3 v of
           [] \<Rightarrow> Some 3
         | c # cs \<Rightarrow>
             if js_space c then Some (3 + length (takeWhile js_space (c # cs)))
             else if css_meta c then Some 3
             else None)
      else None)"

section \<open>Positions in the style sheet\<close>

text \<open>
  A postcss \<^verbatim>\<open>Source\<close>: the file of its input and the offset of its start.  Lines and
  columns are computed by postcss from the offset and are not modelled.
\<close>

record source =
  input_file :: "string option"
  start_offset :: "nat option"

text \<open>
  The errors of compilation.  A \<^verbatim>\<open>CssSyntaxError\<close> has a reason, the file, and the
  offset into the input when it was made by \<^verbatim>\<open>input.error(message, offset)\<close>;
  \<open>PlainError\<close> is \<^verbatim>\<open>Error()\<close>; an \<open>AcornError\<close> is an error that acorn's \<^verbatim>\<open>parse\<close> throws
  and nobody catches, with \<^verbatim>\<open>String(error)\<close> and its \<^verbatim>\<open>pos\<close> when that is a number.
\<close>

datatype css_error =
    CssSyntaxError string "string option" "int option"
  | PlainError
  | AcornError string "int option"

definition node_error :: "string \<Rightarrow> source option \<Rightarrow> css_error" where
  "node_error message src = CssSyntaxError message (case src of None \<Rightarrow> None | Some s \<Rightarrow> input_file s) None"

definition cssSyntaxError :: "string \<Rightarrow> source option \<Rightarrow> int \<Rightarrow> css_error" where
  "cssSyntaxError message src offset =
     (case src of
        None \<Rightarrow> node_error message src
      | Some s \<Rightarrow>
          (case start_offset s of
             None \<Rightarrow> node_error message src
           | Some start \<Rightarrow> CssSyntaxError message (input_file s) (Some (int start + offset))))"

definition checkInvalidAtJs :: "string \<Rightarrow> source option \<Rightarrow> int \<Rightarrow> css_error + unit" where
  "checkInvalidAtJs src node_source offset =
     (case indexOf ''@js'' (mask_strings src) of
        Some i \<Rightarrow> Inl (cssSyntaxError ''invalid use of @js'' node_source (offset + int i))
      | None \<Rightarrow> Inr ())"

section \<open>\<^verbatim>\<open>script.ts\<close>: code with provenance\<close>

text \<open>
  A \<^verbatim>\<open>Loc\<close> is a postcss source, \<^verbatim>\<open>undefined\<close>, \<^verbatim>\<open>'relative'\<close>, or an object with a
  \<^verbatim>\<open>source\<close> that is again a \<^verbatim>\<open>Loc\<close> and an optional \<^verbatim>\<open>offset\<close>, which may be
  \<^verbatim>\<open>null\<close>.  A \<^verbatim>\<open>Code\<close> object and a \<^verbatim>\<open>ComputedLoc\<close> have a \<^verbatim>\<open>source\<close> property too
  and are used as such objects by the sources.
\<close>

datatype offset_field = OffAbsent | OffNull | Off int

datatype loc =
    LSource source
  | LUndefined
  | LRelative
  | LTagged loc offset_field

record computed_loc =
  cl_source :: "source option"
  cl_offset :: int
  cl_inc :: nat

text \<open>The loop of \<^verbatim>\<open>computeLoc\<close>: the end of the chain, the offset and the increment.\<close>

fun walk_loc :: "loc \<Rightarrow> int \<Rightarrow> nat \<Rightarrow> loc \<times> int \<times> nat" where
  "walk_loc (LTagged src OffNull) offset inc = walk_loc src offset 0"
| "walk_loc (LTagged src OffAbsent) offset inc = walk_loc src offset inc"
| "walk_loc (LTagged src (Off n)) offset inc = walk_loc src (offset + n) inc"
| "walk_loc l offset inc = (l, offset, inc)"

fun end_source :: "loc \<Rightarrow> source option" where
  "end_source (LSource s) = Some s"
| "end_source l = None"

text \<open>
  \<^verbatim>\<open>computeLoc(loc, from)\<close>.  The call for the base of a relative location passes no
  second argument, so the recursion is at most two calls deep: \<open>computeLoc_base\<close> is
  \<^verbatim>\<open>computeLoc(from)\<close>, whose own base is \<^verbatim>\<open>computeLoc(undefined)\<close>.
\<close>

definition computeLoc_base :: "loc \<Rightarrow> computed_loc" where
  "computeLoc_base frm =
     (case walk_loc frm 0 1 of
        (LRelative, offset, inc) \<Rightarrow> \<lparr>cl_source = None, cl_offset = 0 + offset, cl_inc = 0\<rparr>
      | (l, offset, inc) \<Rightarrow> \<lparr>cl_source = end_source l, cl_offset = offset, cl_inc = inc\<rparr>)"

definition computeLoc :: "loc \<Rightarrow> loc \<Rightarrow> computed_loc" where
  "computeLoc l frm =
     (case walk_loc l 0 1 of
        (LRelative, offset, inc) \<Rightarrow>
          (let base = computeLoc_base frm
           in \<lparr>cl_source = cl_source base, cl_offset = cl_offset base + offset, cl_inc = 0\<rparr>)
      | (l', offset, inc) \<Rightarrow> \<lparr>cl_source = end_source l', cl_offset = offset, cl_inc = inc\<rparr>)"

text \<open>
  A \<^verbatim>\<open>NestedCode\<close> of strings: the content is a list of strings and of nested codes, the
  second field is the location tag.
\<close>

datatype code = Str string | Code "code list" loc

fun code_text :: "code \<Rightarrow> string" where
  "code_text (Str s) = s"
| "code_text (Code items tag) = concat (map code_text items)"

text \<open>A \<^verbatim>\<open>Code\<close> and a \<^verbatim>\<open>ComputedLoc\<close> read as a \<^verbatim>\<open>Loc\<close>.\<close>

definition loc_of_computed :: "computed_loc \<Rightarrow> int \<Rightarrow> loc" where
  "loc_of_computed cl offset =
     LTagged (LTagged (case cl_source cl of None \<Rightarrow> LUndefined | Some s \<Rightarrow> LSource s) (Off (cl_offset cl)))
       (Off offset)"

text \<open>
  \<^verbatim>\<open>SourceMap.force\<close>.  The state is the variable \<^verbatim>\<open>cursor\<close> and the two arrays, kept as
  one list with an entry for each character of the text written so far (\<^verbatim>\<open>position\<close> is
  its length; \<open>None\<close> is a hole of the arrays).  The task stack of \<^verbatim>\<open>translate\<close> visits
  the tree depth first, from left to right, which is the recursion below.
\<close>

record sm_state =
  sm_cursor :: int
  sm_entries :: "(source \<times> int) option list"

record sm_frame =
  fr_loc :: computed_loc
  fr_start :: int

definition sm_begin :: "loc \<Rightarrow> sm_frame \<Rightarrow> sm_state \<Rightarrow> sm_frame" where
  "sm_begin tag fr st =
     \<lparr>fr_loc = computeLoc (LTagged tag OffAbsent) (loc_of_computed (fr_loc fr) (sm_cursor st - fr_start fr)),
      fr_start = sm_cursor st\<rparr>"

definition sm_translate :: "sm_frame \<Rightarrow> string \<Rightarrow> sm_state \<Rightarrow> sm_state" where
  "sm_translate fr item st =
     (case cl_source (fr_loc fr) of
        Some s \<Rightarrow>
          (let offset = cl_offset (fr_loc fr) + (sm_cursor st - fr_start fr) * int (cl_inc (fr_loc fr))
           in \<lparr>sm_cursor = sm_cursor st + int (length item) * int (cl_inc (fr_loc fr)),
               sm_entries = sm_entries st @
                 map (\<lambda>i. Some (s, offset + int i * int (cl_inc (fr_loc fr)))) [0..<length item]\<rparr>)
      | None \<Rightarrow> st\<lparr>sm_entries := sm_entries st @ replicate (length item) None\<rparr>)"

fun force_code :: "sm_frame \<Rightarrow> code \<Rightarrow> sm_state \<Rightarrow> sm_state"
  and force_items :: "sm_frame \<Rightarrow> code list \<Rightarrow> sm_state \<Rightarrow> sm_state" where
  "force_code fr (Str s) st = sm_translate fr s st"
| "force_code fr (Code items tag) st = force_items (sm_begin tag fr st) items st"
| "force_items fr [] st = st"
| "force_items fr (c # cs) st = force_items fr cs (force_code fr c st)"

definition force :: "code \<Rightarrow> (source \<times> int) option list" where
  "force c =
     sm_entries (force_code \<lparr>fr_loc = computeLoc LUndefined LUndefined, fr_start = 0\<rparr> c
       \<lparr>sm_cursor = 0, sm_entries = []\<rparr>)"

text \<open>
  \<^verbatim>\<open>SourceMap.find\<close>: the source of a position of the generated text, its start moved to
  the offset found.
\<close>

definition find_position :: "code \<Rightarrow> nat \<Rightarrow> source option" where
  "find_position c position =
     (if position < length (force c) then
        (case force c ! position of
           None \<Rightarrow> None
         | Some (s, offset) \<Rightarrow>
             Some (s\<lparr>start_offset := Some (nat (offset + int (case start_offset s of None \<Rightarrow> 0 | Some n \<Rightarrow> n)))\<rparr>))
      else None)"

section \<open>\<^verbatim>\<open>syntax.ts\<close>: validating a fragment\<close>

text \<open>
  The host's parsers.  \<open>compiles h test\<close> is \<^verbatim>\<open>Function(test)\<close>: \<open>None\<close> when the text
  compiles, otherwise the error thrown, as the string \<^verbatim>\<open>String(error)\<close>.  \<open>acorn h\<close> is
  \<^verbatim>\<open>acornParse()\<close>: \<open>None\<close> when acorn cannot be imported, otherwise its \<^verbatim>\<open>parse\<close>, which
  throws an error with or without a numeric \<^verbatim>\<open>pos\<close>, or returns a syntax tree.  Of the
  tree the model keeps what \<^verbatim>\<open>findImports\<close> reads from it: the \<^verbatim>\<open>start\<close> of its
  \<^verbatim>\<open>ImportExpression\<close> nodes, in the order of the visit.
\<close>

datatype acorn_result = AcornOk "int list" | AcornThrows string "int option"

record js_host =
  compiles :: "string \<Rightarrow> string option"
  acorn :: "(string \<Rightarrow> acorn_result) option"

definition findSyntaxError :: "js_host \<Rightarrow> string \<Rightarrow> string \<Rightarrow> string \<times> int option" where
  "findSyntaxError h test cause =
     (case acorn h of
        None \<Rightarrow> (cause, None)
      | Some parse \<Rightarrow>
          (case parse test of
             AcornOk starts \<Rightarrow> (cause, None)
           | AcornThrows error epos \<Rightarrow> (error, epos)))"

text \<open>
  The code of a fragment, \<^verbatim>\<open>Code<Array<string | Code<string[]> | Import>>\<close>: strings, the
  import function that \<^verbatim>\<open>makeImport\<close> makes for a file, and codes of strings.
\<close>

datatype fragment_item = FStr string | FImport string | FCode code

datatype fragment = Fragment "fragment_item list" loc

record user_code =
  expr :: bool
  ucode :: fragment

text \<open>
  \<^verbatim>\<open>/\bimport\b/.test(s)\<close>: the word \<^verbatim>\<open>import\<close> with no character of \<^verbatim>\<open>[A-Za-z0-9_]\<close> before or
  after it.  The flag says whether the character before is such a character.
\<close>

definition word_char :: "char \<Rightarrow> bool" where
  "word_char c \<longleftrightarrow> c \<in> set ''abcdefghijklmnopqrstuvwxyzABCDEFGHIJKLMNOPQRSTUVWXYZ0123456789_''"

fun import_from :: "bool \<Rightarrow> string \<Rightarrow> bool" where
  "import_from prev_word [] = False"
| "import_from prev_word (c # cs) =
     ((\<not> prev_word \<and> prefix ''import'' (c # cs)
         \<and> (case drop 6 (c # cs) of [] \<Rightarrow> True | d # ds \<Rightarrow> \<not> word_char d))
      \<or> import_from (word_char c) cs)"

definition has_import :: "string \<Rightarrow> bool" where
  "has_import s = import_from False s"

text \<open>
  A \<^verbatim>\<open>ComputedLoc\<close> read as a \<^verbatim>\<open>Loc\<close>, and the items that \<^verbatim>\<open>replaceImport\<close> pushes for the
  starts of the import expressions: the import function of the file and the text from
  after the word \<^verbatim>\<open>import\<close> to the next start, or to the end.
\<close>

definition loc_of_location :: "computed_loc \<Rightarrow> loc" where
  "loc_of_location cl = LTagged (case cl_source cl of None \<Rightarrow> LUndefined | Some s \<Rightarrow> LSource s) (Off (cl_offset cl))"

fun import_pieces :: "string \<Rightarrow> computed_loc \<Rightarrow> string \<Rightarrow> int list \<Rightarrow> fragment_item list" where
  "import_pieces file cl src [] = []"
| "import_pieces file cl src (pos # rest) =
     (let beg = pos + 6;
          text = (case rest of [] \<Rightarrow> slice_from src beg | e # es \<Rightarrow> slice src beg e)
      in FImport file # FCode (Code [Str text] (LTagged (loc_of_location cl) (Off beg)))
           # import_pieces file cl src rest)"

text \<open>
  \<^verbatim>\<open>replaceImport\<close> for a code with the strings \<open>content\<close> and the tag \<open>tag\<close>.  The call of
  acorn's \<^verbatim>\<open>parse\<close> is not inside a \<^verbatim>\<open>try\<close>: what it throws is thrown by
  \<^verbatim>\<open>replaceImport\<close>.
\<close>

definition replaceImport :: "js_host \<Rightarrow> string list \<Rightarrow> loc \<Rightarrow> css_error + fragment" where
  "replaceImport h content tag =
     (if \<not> list_ex has_import content then Inr (Fragment (map FStr content) tag)
      else
        (let cl = computeLoc tag LUndefined
         in case (case cl_source cl of None \<Rightarrow> None | Some s \<Rightarrow> input_file s) of
              None \<Rightarrow> Inr (Fragment (map FStr content) tag)
            | Some file \<Rightarrow>
                (case acorn h of
                   None \<Rightarrow> Inr (Fragment (map FStr content) tag)
                 | Some parse \<Rightarrow>
                     (case parse (concat content) of
                        AcornThrows error epos \<Rightarrow> Inl (AcornError error epos)
                      | AcornOk [] \<Rightarrow> Inr (Fragment (map FStr content) tag)
                      | AcornOk (first # rest) \<Rightarrow>
                          Inr (Fragment
                                (FStr (slice (concat content) 0 first)
                                   # import_pieces file cl (concat content) (first # rest))
                                (loc_of_location cl))))))"

text \<open>
  The inner function \<^verbatim>\<open>attempt\<close> of \<^verbatim>\<open>userCode\<close>: \<open>None\<close> when the text compiles,
  otherwise the error it returns.
\<close>

definition attempt ::
  "js_host \<Rightarrow> source option \<Rightarrow> int \<Rightarrow> string \<Rightarrow> string \<Rightarrow> string \<Rightarrow> bool \<Rightarrow> css_error option" where
  "attempt h at_source offset sourceCode pre suf errorDetail =
     (let test = pre @ sourceCode @ suf
      in case compiles h test of
           None \<Rightarrow> None
         | Some error \<Rightarrow>
             if \<not> errorDetail then Some PlainError
             else
               (let (cause, fpos) = findSyntaxError h test error;
                    pos = offset + (case fpos of None \<Rightarrow> int (length pre) | Some p \<Rightarrow> p) - int (length pre)
                in Some (cssSyntaxError cause at_source pos)))"

definition source_loc :: "source option \<Rightarrow> loc" where
  "source_loc s = (case s of None \<Rightarrow> LUndefined | Some x \<Rightarrow> LSource x)"

definition newline :: char where
  "newline = CHR 0x0A"

definition userCode ::
  "js_host \<Rightarrow> source option \<Rightarrow> int \<Rightarrow> string \<Rightarrow> string \<Rightarrow> css_error + user_code" where
  "userCode h at_source offset sourceCode stub =
     (let tag = LTagged (source_loc at_source) (Off offset)
      in case attempt h at_source offset sourceCode (''async function* f(){ return ('' @ [newline])
                (stub @ [newline] @ '');}'') False of
           None \<Rightarrow>
             (case replaceImport h [sourceCode] tag of
                Inl e \<Rightarrow> Inl e
              | Inr c \<Rightarrow> Inr \<lparr>expr = True, ucode = c\<rparr>)
         | Some e1 \<Rightarrow>
             (case attempt h at_source offset sourceCode (''async function* f(){'' @ [newline])
                     (stub @ [newline] @ '';}'') True of
                None \<Rightarrow>
                  (case replaceImport h [sourceCode] tag of
                     Inl e \<Rightarrow> Inl e
                   | Inr c \<Rightarrow> Inr \<lparr>expr = False, ucode = c\<rparr>)
              | Some e2 \<Rightarrow> Inl e2))"


section \<open>\<^verbatim>\<open>runtime.ts\<close>: interpreting what the program yields\<close>

subsection \<open>Nodes and values\<close>

text \<open>
  The formatting of a postcss node that the sources read: \<^verbatim>\<open>raws.between\<close>,
  \<^verbatim>\<open>raws.afterName\<close> and \<^verbatim>\<open>raws.semicolon\<close>.
\<close>

record raws =
  between :: "string option"
  afterName :: "string option"
  semicolon :: "bool option"

text \<open>
  The child nodes of postcss: an at-rule (name, params, and its nodes when it has a
  block), a rule (selector and nodes), a declaration (property and value) and a comment.
\<close>

datatype node =
    AtRule "source option" raws string string "node list option"
  | Rule "source option" raws string "node list"
  | Decl "source option" raws string string
  | Comment "source option" raws string

fun node_source :: "node \<Rightarrow> source option" where
  "node_source (AtRule s r name params nodes) = s"
| "node_source (Rule s r selector nodes) = s"
| "node_source (Decl s r p v) = s"
| "node_source (Comment s r t) = s"

fun set_source :: "node \<Rightarrow> source option \<Rightarrow> node" where
  "set_source (AtRule s r name params nodes) s' = AtRule s' r name params nodes"
| "set_source (Rule s r selector nodes) s' = Rule s' r selector nodes"
| "set_source (Decl s r p v) s' = Decl s' r p v"
| "set_source (Comment s r t) s' = Comment s' r t"

fun node_raws :: "node \<Rightarrow> raws" where
  "node_raws (AtRule s r name params nodes) = r"
| "node_raws (Rule s r selector nodes) = r"
| "node_raws (Decl s r p v) = r"
| "node_raws (Comment s r t) = r"

fun set_raws :: "node \<Rightarrow> raws \<Rightarrow> node" where
  "set_raws (AtRule s r name params nodes) r' = AtRule s r' name params nodes"
| "set_raws (Rule s r selector nodes) r' = Rule s r' selector nodes"
| "set_raws (Decl s r p v) r' = Decl s r' p v"
| "set_raws (Comment s r t) r' = Comment s r' t"

text \<open>\<^verbatim>\<open>container.append(nodes)\<close>; an at-rule without a block gets one.\<close>

fun append_children :: "node \<Rightarrow> node list \<Rightarrow> node" where
  "append_children (AtRule s r name params None) ns = AtRule s r name params (Some ns)"
| "append_children (AtRule s r name params (Some old)) ns = AtRule s r name params (Some (old @ ns))"
| "append_children (Rule s r selector old) ns = Rule s r selector (old @ ns)"
| "append_children n ns = n"

text \<open>
  A value thrown: the text \<^verbatim>\<open>String(error)\<close>, whether it is an object, whether it
  refuses assignments to its properties (a frozen object), and the hidden property
  \<^verbatim>\<open>errorSymbol\<close> when it has one.
\<close>

record thrown =
  message :: string
  is_object :: bool
  frozen :: bool
  errorPos :: "nat option"

text \<open>
  The values of the guest code as far as the interpretation tells them apart.  A function
  is known by a number, its behaviour is given by the host.  \<open>Iter items r\<close> is an
  iterable object that produces the items and then returns the value \<open>r\<close> or throws;
  \<open>Plain entries\<close> is a plain object with its \<^verbatim>\<open>Object.entries\<close>; \<open>Obj own s\<close> is any other
  object, \<open>own\<close> says that its \<^verbatim>\<open>toString\<close> is not \<^verbatim>\<open>Object.prototype.toString\<close> and
  \<open>s\<close> is a name that tells it from the other objects.  The only numbers are the integers.
\<close>

datatype jsval =
    Undefined
  | Null
  | JBool bool
  | JNum int
  | JStr string
  | Func nat
  | Iter "jsval list" "thrown + jsval"
  | Plain "(string \<times> jsval) list"
  | Node node
  | BeginJs node nat nat
  | EndJs bool
  | Obj bool string

type_synonym iterator = "jsval list \<times> (thrown + jsval)"

text \<open>
  What the run time is given: \<^verbatim>\<open>inspect\<close> of Node.js, the behaviour of the guest functions
  and the conversion \<^verbatim>\<open>String(value)\<close> of the numbers and the objects, which for an
  object runs its \<^verbatim>\<open>toString\<close> and throws what that throws.
\<close>

record rt_host =
  inspect :: "nat \<Rightarrow> jsval \<Rightarrow> string"
  call :: "nat \<Rightarrow> jsval option \<Rightarrow> thrown + jsval"
  to_String :: "jsval \<Rightarrow> thrown + string"

subsection \<open>\<^verbatim>\<open>utils.ts\<close>\<close>

fun isObject :: "jsval \<Rightarrow> bool" where
  "isObject (Iter items r) = True"
| "isObject (Plain entries) = True"
| "isObject (Node n) = True"
| "isObject (BeginJs n offset pos) = True"
| "isObject (EndJs b) = True"
| "isObject (Obj own s) = True"
| "isObject v = False"

fun isIterable :: "jsval \<Rightarrow> bool" where
  "isIterable (Iter items r) = True"
| "isIterable v = False"

text \<open>\<^verbatim>\<open>getProp(obj, key)\<close> for a string key; only plain objects have such properties here.\<close>

fun getProp :: "jsval \<Rightarrow> string \<Rightarrow> jsval" where
  "getProp (Plain entries) key = (case map_of entries key of None \<Rightarrow> Undefined | Some v \<Rightarrow> v)"
| "getProp v key = Undefined"

text \<open>\<^verbatim>\<open>setProp(error, errorSymbol, pos, overwrite)\<close>: errors of the assignment are ignored.\<close>

definition setProp :: "thrown \<Rightarrow> nat \<Rightarrow> bool \<Rightarrow> thrown" where
  "setProp obj v overwrite =
     (if is_object obj \<and> (if errorPos obj \<noteq> None then overwrite else True) \<and> \<not> frozen obj
      then obj\<lparr>errorPos := Some v\<rparr> else obj)"

subsection \<open>Raws, errors and the interpretation context\<close>

definition coerceToRaws :: "jsval \<Rightarrow> bool option" where
  "coerceToRaws obj = (case getProp obj ''semicolon'' of JBool b \<Rightarrow> Some b | _ \<Rightarrow> None)"

definition mergeRaws :: "bool option \<Rightarrow> bool option \<Rightarrow> bool option" where
  "mergeRaws semi1 semi2 = (case semi2 of None \<Rightarrow> semi1 | Some b \<Rightarrow> Some (b \<or> semi1 = Some True))"

definition raws_object :: "bool option \<Rightarrow> jsval" where
  "raws_object semi = Plain (case semi of None \<Rightarrow> [] | Some b \<Rightarrow> [(''semicolon'', JBool b)])"

definition appendNodes :: "node \<Rightarrow> node list \<Rightarrow> bool option \<Rightarrow> node" where
  "appendNodes dest nodes returned =
     (let d = append_children dest nodes
      in case mergeRaws returned (semicolon (node_raws d)) of
           None \<Rightarrow> d
         | Some b \<Rightarrow> set_raws d ((node_raws d)\<lparr>semicolon := Some b\<rparr>))"

text \<open>
  \<^verbatim>\<open>newContainer(orig, iter)\<close>, given the nodes and the raws that the iterator produces:
  the new node has the strings, the raws and the source of the original and no children.
\<close>

fun empty_copy :: "node \<Rightarrow> node" where
  "empty_copy (AtRule s r name params nodes) = AtRule s r name params None"
| "empty_copy (Rule s r selector nodes) = Rule s r selector []"
| "empty_copy n = n"

definition newContainer :: "node \<Rightarrow> thrown + node list \<times> bool option \<Rightarrow> thrown + node" where
  "newContainer orig produced =
     (case produced of
        Inl e \<Rightarrow> Inl e
      | Inr (nodes, returned) \<Rightarrow> Inr (appendNodes (empty_copy orig) nodes returned))"

definition handleError :: "thrown \<Rightarrow> nat \<Rightarrow> thrown" where
  "handleError error pos = setProp error pos False"

definition Unexpected_create :: "rt_host \<Rightarrow> jsval \<Rightarrow> nat option \<Rightarrow> thrown" where
  "Unexpected_create h obj pos =
     (let error = \<lparr>message = ''attempt to inject an invalid value: '' @ inspect h 3 obj,
                   is_object = True, frozen = False, errorPos = None\<rparr>
      in case pos of None \<Rightarrow> error | Some p \<Rightarrow> setProp error p True)"

text \<open>
  The class \<^verbatim>\<open>Context\<close>: the active \<^verbatim>\<open>BeginJs\<close> and the raws to merge (\<open>None\<close> is both
  \<^verbatim>\<open>undefined\<close> and an object without \<^verbatim>\<open>semicolon\<close>: only \<^verbatim>\<open>rawsEnd\<close> reads it).
\<close>

record icontext =
  ic_source :: "(node \<times> nat \<times> nat) option"
  ic_raws :: "bool option"

text \<open>\<^verbatim>\<open>BeginJs.source()\<close>; \<^verbatim>\<open>fromOffset\<close> of postcss is taken to know the offset.\<close>

definition beginjs_source :: "node \<times> nat \<times> nat \<Rightarrow> source option" where
  "beginjs_source bj =
     (case bj of (n, offset, pos) \<Rightarrow>
        (case node_source n of
           None \<Rightarrow> None
         | Some s \<Rightarrow>
             Some (s\<lparr>start_offset := Some ((case start_offset s of None \<Rightarrow> 0 | Some k \<Rightarrow> k) + offset)\<rparr>)))"

definition context_next :: "icontext \<Rightarrow> node \<times> nat \<times> nat \<Rightarrow> icontext" where
  "context_next cx bj = \<lparr>ic_source = Some bj, ic_raws = ic_raws cx\<rparr>"

definition nest :: "icontext \<Rightarrow> icontext" where
  "nest cx = \<lparr>ic_source = ic_source cx, ic_raws = None\<rparr>"

definition context_mergeRaws :: "icontext \<Rightarrow> bool option \<Rightarrow> icontext" where
  "context_mergeRaws cx r = cx\<lparr>ic_raws := mergeRaws (ic_raws cx) r\<rparr>"

definition reflect :: "icontext \<Rightarrow> node \<Rightarrow> icontext \<times> node" where
  "reflect cx n =
     (cx\<lparr>ic_raws := None\<rparr>,
      if node_source n = None then
        (case ic_source cx of
           None \<Rightarrow> n
         | Some bj \<Rightarrow> (case beginjs_source bj of None \<Rightarrow> n | Some s \<Rightarrow> set_source n (Some s)))
      else n)"

definition unexpected :: "rt_host \<Rightarrow> icontext \<Rightarrow> jsval \<Rightarrow> thrown" where
  "unexpected h cx obj = Unexpected_create h obj (map_option (\<lambda>(n, offset, pos). pos) (ic_source cx))"

subsection \<open>The classification of values\<close>

fun isPlainObject :: "jsval \<Rightarrow> bool" where
  "isPlainObject (Plain entries) = True"
| "isPlainObject v = False"

fun isChildNode :: "jsval \<Rightarrow> bool" where
  "isChildNode (Node n) = True"
| "isChildNode v = False"

definition isInterpretable :: "jsval \<Rightarrow> bool" where
  "isInterpretable arg \<longleftrightarrow> isIterable arg \<or> isPlainObject arg \<or> isChildNode arg"

text \<open>Only asked of values that are not interpretable.\<close>

fun hasOwnToString :: "jsval \<Rightarrow> bool" where
  "hasOwnToString (Obj own s) = own"
| "hasOwnToString (BeginJs n offset pos) = False"
| "hasOwnToString (EndJs b) = False"
| "hasOwnToString v = True"

fun isFunction :: "jsval \<Rightarrow> bool" where
  "isFunction (Func f) = True"
| "isFunction v = False"

definition isStringifiable :: "jsval \<Rightarrow> bool" where
  "isStringifiable arg \<longleftrightarrow>
     arg \<noteq> Null \<and> arg \<noteq> Undefined \<and> \<not> isFunction arg \<and> \<not> isInterpretable arg \<and> hasOwnToString arg"

text \<open>
  \<^verbatim>\<open>String(value)\<close>: a string is itself, a boolean is \<^verbatim>\<open>true\<close> or \<^verbatim>\<open>false\<close>, and
  \<^verbatim>\<open>null\<close> and \<^verbatim>\<open>undefined\<close> are their names; the string of any other value is what
  the host makes of it, a string or an error.
\<close>

definition js_String :: "rt_host \<Rightarrow> jsval \<Rightarrow> thrown + string" where
  "js_String h v =
     (case v of
        JStr s \<Rightarrow> Inr s
      | JBool b \<Rightarrow> Inr (if b then ''true'' else ''false'')
      | Null \<Rightarrow> Inr ''null''
      | Undefined \<Rightarrow> Inr ''undefined''
      | _ \<Rightarrow> to_String h v)"

definition stringify :: "rt_host \<Rightarrow> jsval \<Rightarrow> thrown + string" where
  "stringify h v = (if \<not> isStringifiable v then Inl (Unexpected_create h v None) else js_String h v)"


subsection \<open>Interpreting a value\<close>

text \<open>
  \<^verbatim>\<open>key.slice(1)\<close> split by the regular expression into the name and the params of an
  at-rule.
\<close>

definition atrule_name :: "string \<Rightarrow> string" where
  "atrule_name src = (case exec_name_end src of None \<Rightarrow> src | Some (i, n) \<Rightarrow> slice src 0 (int i))"

definition atrule_params :: "string \<Rightarrow> string" where
  "atrule_params src = (case exec_name_end src of None \<Rightarrow> [] | Some (i, n) \<Rightarrow> slice_from src (int (i + n)))"

definition empty_raws :: raws where
  "empty_raws = \<lparr>between = None, afterName = None, semicolon = None\<rparr>"

text \<open>
  \<^verbatim>\<open>interpretUnknown\<close> and \<^verbatim>\<open>interpretObject\<close> are generators; the model returns the
  nodes that they yield, in order, and how they end: with the error that they throw after
  these nodes, or with the context as they leave it.  The iterator stack of
  \<^verbatim>\<open>interpretUnknown\<close> visits nested iterables depth first: \<open>interpretValue\<close> is one
  round of its outer loop, \<open>interpretItems\<close> drains one iterator.  The nested generator
  of an entry is consumed by \<^verbatim>\<open>appendNodes\<close>, which collects its nodes before it appends
  them: when the nested generator throws, the error leaves \<^verbatim>\<open>interpretObject\<close> before
  the node of the entry is yielded, and the nodes collected are lost.
\<close>

fun interpretValue :: "rt_host \<Rightarrow> icontext \<Rightarrow> jsval \<Rightarrow> node list \<times> (thrown + icontext)"
  and interpretItems :: "rt_host \<Rightarrow> icontext \<Rightarrow> jsval list \<Rightarrow> thrown + jsval \<Rightarrow> node list \<times> (thrown + icontext)"
  and interpretObject :: "rt_host \<Rightarrow> icontext \<Rightarrow> (string \<times> jsval) list \<Rightarrow> node list \<times> (thrown + icontext)"
where
  "interpretValue h cx (Iter items r) = interpretItems h cx items r"
| "interpretValue h cx (Plain entries) = interpretObject h cx entries"
| "interpretValue h cx (Node n) = (case reflect cx n of (cx', n') \<Rightarrow> ([n'], Inr cx'))"
| "interpretValue h cx v = ([], Inl (unexpected h cx v))"
| "interpretItems h cx [] r = ([], case r of Inl e \<Rightarrow> Inl e | Inr v \<Rightarrow> Inr cx)"
| "interpretItems h cx (x # xs) r =
     (case interpretValue h cx x of
        (ns, Inl e) \<Rightarrow> (ns, Inl e)
      | (ns, Inr cx') \<Rightarrow> (case interpretItems h cx' xs r of (ms, res) \<Rightarrow> (ns @ ms, res)))"
| "interpretObject h cx [] = ([], Inr cx)"
| "interpretObject h cx ((key, v) # entries) =
     (if startsWith key ''@'' then
        (let src = slice_from key 1;
             (cx1, n) = reflect cx (AtRule None empty_raws (atrule_name src) (atrule_params src) None)
         in if isInterpretable v then
              (case interpretValue h (nest cx1) v of
                 (ns, Inl e) \<Rightarrow> ([], Inl e)
               | (ns, Inr cx2) \<Rightarrow>
                   (case interpretObject h cx1 entries of
                      (ms, res) \<Rightarrow> (appendNodes n ns (ic_raws (context_mergeRaws cx2 (Some True))) # ms, res)))
            else if v \<noteq> Undefined then ([], Inl (unexpected h cx1 v))
            else (case interpretObject h cx1 entries of (ms, res) \<Rightarrow> (n # ms, res)))
      else if isInterpretable v then
        (let (cx1, n) = reflect cx (Rule None empty_raws key [])
         in case interpretValue h (nest cx1) v of
              (ns, Inl e) \<Rightarrow> ([], Inl e)
            | (ns, Inr cx2) \<Rightarrow>
                (case interpretObject h cx1 entries of
                   (ms, res) \<Rightarrow> (appendNodes n ns (ic_raws (context_mergeRaws cx2 (Some True))) # ms, res)))
      else if isStringifiable v then
        (case js_String h v of
           Inl e \<Rightarrow> ([], Inl e)
         | Inr val \<Rightarrow>
             (let (cx1, n) = reflect cx (Decl None empty_raws key val)
              in case interpretObject h cx1 entries of (ms, res) \<Rightarrow> (n # ms, res)))
      else ([], Inl (unexpected h cx v)))"

text \<open>
  \<^verbatim>\<open>interpretUnknown(arg, context)\<close>: the nodes that it yields, and the error that it
  throws or the raws that it returns after \<^verbatim>\<open>context.mergeRaws({ semicolon: true })\<close>.
\<close>

definition interpretUnknown :: "rt_host \<Rightarrow> icontext \<Rightarrow> jsval \<Rightarrow> node list \<times> (thrown + bool option)" where
  "interpretUnknown h cx arg =
     (case interpretValue h cx arg of
        (ns, Inl e) \<Rightarrow> (ns, Inl e)
      | (ns, Inr cx') \<Rightarrow> (ns, Inr (ic_raws (context_mergeRaws cx' (Some True)))))"


subsection \<open>The main loop\<close>

text \<open>
  The variables of \<^verbatim>\<open>mainLoop\<close>: the pending function \<^verbatim>\<open>func\<close>, the item \<^verbatim>\<open>next\<close> that
  is held (\<open>None\<close> is \<^verbatim>\<open>null\<close> or \<^verbatim>\<open>undefined\<close>), the context, the stack of iterators
  and the current iterator.  Two fields are added: the nodes yielded so far and the calls
  of guest functions made so far, each with its argument if it had one.
\<close>

record ml_state =
  ml_func :: "nat option"
  ml_next :: "jsval option"
  ml_context :: icontext
  ml_stack :: "iterator list"
  ml_iter :: iterator
  ml_yielded :: "node list"
  ml_calls :: "(nat \<times> jsval option) list"

text \<open>
  The inner loop: ask the current iterator; when it is done merge the raws it returns
  and go on with the iterator below it on the stack, if there is one.
\<close>

datatype fetched =
    Fetched jsval icontext iterator "iterator list"
  | FetchThrows thrown
  | FetchReturns "bool option"

fun fetch :: "icontext \<Rightarrow> iterator \<Rightarrow> iterator list \<Rightarrow> fetched" where
  "fetch cx (x # xs, r) stack = Fetched x cx (xs, r) stack"
| "fetch cx ([], Inl e) stack = FetchThrows e"
| "fetch cx ([], Inr v) [] = FetchReturns (ic_raws (context_mergeRaws cx (coerceToRaws v)))"
| "fetch cx ([], Inr v) (it # stack) = fetch (context_mergeRaws cx (coerceToRaws v)) it stack"

text \<open>The chain of tests on the value, from \<^verbatim>\<open>value instanceof BeginJs\<close> on.\<close>

fun classify :: "rt_host \<Rightarrow> ml_state \<Rightarrow> jsval \<Rightarrow> ((thrown + bool option) \<times> ml_state) + ml_state" where
  "classify h st (BeginJs n offset pos) =
     Inr (st\<lparr>ml_context := context_next (ml_context st) (n, offset, pos)\<rparr>)"
| "classify h st (EndJs b) = Inr st"
| "classify h st (Iter items r) = Inr (st\<lparr>ml_stack := ml_iter st # ml_stack st, ml_iter := (items, r)\<rparr>)"
| "classify h st (Plain entries) =
     (case interpretObject h (ml_context st) entries of
        (ns, Inl e) \<Rightarrow> Inl (Inl e, st\<lparr>ml_yielded := ml_yielded st @ ns\<rparr>)
      | (ns, Inr cx) \<Rightarrow> Inr (st\<lparr>ml_yielded := ml_yielded st @ ns, ml_context := cx\<rparr>))"
| "classify h st (Node n) =
     (case reflect (ml_context st) n of
        (cx, n') \<Rightarrow> Inr (st\<lparr>ml_yielded := ml_yielded st @ [n'], ml_context := cx\<rparr>))"
| "classify h st (Func f) = Inr (st\<lparr>ml_func := Some f\<rparr>)"
| "classify h st Undefined = Inr st"
| "classify h st v = Inl (Inl (unexpected h (ml_context st) v), st)"

text \<open>The value of this round: the item itself, or what the pending function makes of it.\<close>

definition pending :: "rt_host \<Rightarrow> ml_state \<Rightarrow> jsval \<Rightarrow> ((thrown + bool option) \<times> ml_state) + ml_state" where
  "pending h st item =
     (case ml_func st of
        None \<Rightarrow> classify h (st\<lparr>ml_next := None\<rparr>) item
      | Some f \<Rightarrow>
          (case item of
             EndJs success \<Rightarrow>
               if success then
                 (case call h f None of
                    Inl e \<Rightarrow> Inl (Inl e, st\<lparr>ml_calls := ml_calls st @ [(f, None)]\<rparr>)
                  | Inr v \<Rightarrow> classify h (st\<lparr>ml_func := None, ml_calls := ml_calls st @ [(f, None)]\<rparr>) v)
               else classify h (st\<lparr>ml_func := None\<rparr>) Undefined
           | _ \<Rightarrow>
               (case call h f (Some item) of
                  Inl e \<Rightarrow> Inl (Inl e, st\<lparr>ml_calls := ml_calls st @ [(f, Some item)]\<rparr>)
                | Inr v \<Rightarrow>
                    classify h (st\<lparr>ml_next := None, ml_func := None,
                                   ml_calls := ml_calls st @ [(f, Some item)]\<rparr>) v)))"

text \<open>One round of the outer loop: \<open>Inl\<close> when the generator returns or throws.\<close>

definition ml_step :: "rt_host \<Rightarrow> ml_state \<Rightarrow> ((thrown + bool option) \<times> ml_state) + ml_state" where
  "ml_step h st =
     (case ml_next st of
        Some item \<Rightarrow> pending h st item
      | None \<Rightarrow>
          (case fetch (ml_context st) (ml_iter st) (ml_stack st) of
             FetchThrows e \<Rightarrow> Inl (Inl e, st)
           | FetchReturns r \<Rightarrow> Inl (Inr r, st)
           | Fetched item cx it stack \<Rightarrow>
               pending h (st\<lparr>ml_next := Some item, ml_context := cx, ml_iter := it, ml_stack := stack\<rparr>) item))"

text \<open>
  The loop may run forever (a guest function that returns itself is called again and
  again), so not returning is the value \<open>None\<close>.
\<close>

partial_function (option) mainLoop_from :: "rt_host \<Rightarrow> ml_state \<Rightarrow> ((thrown + bool option) \<times> ml_state) option" where
  "mainLoop_from h st = (case ml_step h st of Inl r \<Rightarrow> Some r | Inr st' \<Rightarrow> mainLoop_from h st')"

declare mainLoop_from.simps [code]

definition ml_init :: "iterator \<Rightarrow> ml_state" where
  "ml_init contents =
     \<lparr>ml_func = None, ml_next = None, ml_context = \<lparr>ic_source = None, ic_raws = None\<rparr>,
      ml_stack = [], ml_iter = contents, ml_yielded = [], ml_calls = []\<rparr>"

definition mainLoop :: "rt_host \<Rightarrow> iterator \<Rightarrow> ((thrown + bool option) \<times> ml_state) option" where
  "mainLoop h contents = mainLoop_from h (ml_init contents)"


section \<open>\<^verbatim>\<open>compile.ts\<close>: from the document to the program\<close>

subsection \<open>Offsets into a node\<close>

definition declBetween :: "node \<Rightarrow> string" where
  "declBetween n = (case between (node_raws n) of None \<Rightarrow> '': '' | Some b \<Rightarrow> b)"

definition ruleBetween :: "node \<Rightarrow> string" where
  "ruleBetween n = (case between (node_raws n) of None \<Rightarrow> '' '' | Some b \<Rightarrow> b)"

fun atRuleAfterName :: "node \<Rightarrow> string" where
  "atRuleAfterName (AtRule s r name params nodes) =
     (case afterName r of None \<Rightarrow> (if params = [] then [] else '' '') | Some a \<Rightarrow> a)"
| "atRuleAfterName n = []"

fun atRuleBetween :: "node \<Rightarrow> string" where
  "atRuleBetween (AtRule s r name params nodes) =
     (case between r of None \<Rightarrow> (if nodes = None then [] else '' '') | Some b \<Rightarrow> b)"
| "atRuleBetween n = []"

fun valueOffset :: "node \<Rightarrow> nat" where
  "valueOffset (Decl s r p v) = length (p @ declBetween (Decl s r p v))"
| "valueOffset n = 0"

fun ruleBodyOffset :: "node \<Rightarrow> nat" where
  "ruleBodyOffset (Rule s r selector nodes) = length (selector @ ruleBetween (Rule s r selector nodes))"
| "ruleBodyOffset n = 0"

fun paramsOffset :: "node \<Rightarrow> nat" where
  "paramsOffset (AtRule s r name params nodes) =
     length (''@'' @ name @ atRuleAfterName (AtRule s r name params nodes))"
| "paramsOffset n = 0"

fun atRuleBodyOffset :: "node \<Rightarrow> nat" where
  "atRuleBodyOffset (AtRule s r name params nodes) =
     paramsOffset (AtRule s r name params nodes)
       + length (params @ atRuleBetween (AtRule s r name params nodes))"
| "atRuleBodyOffset n = 0"

text \<open>A container is the root of the document or a child node with nodes of its own.\<close>

datatype container = OfRoot "source option" raws "node list" | OfNode node

fun containerOffset :: "container \<Rightarrow> nat" where
  "containerOffset (OfNode (AtRule s r name params nodes)) = atRuleBodyOffset (AtRule s r name params nodes)"
| "containerOffset (OfNode (Rule s r selector nodes)) = ruleBodyOffset (Rule s r selector nodes)"
| "containerOffset c = 0"

fun container_nodes :: "container \<Rightarrow> node list" where
  "container_nodes (OfRoot s r nodes) = nodes"
| "container_nodes (OfNode (AtRule s r name params (Some nodes))) = nodes"
| "container_nodes (OfNode (Rule s r selector nodes)) = nodes"
| "container_nodes c = []"

fun container_raws :: "container \<Rightarrow> raws" where
  "container_raws (OfRoot s r nodes) = r"
| "container_raws (OfNode n) = node_raws n"

subsection \<open>Global bindings\<close>

type_synonym GlobalScope = "string option"
type_synonym GlobalBinds = "(string \<times> jsval) list"
type_synonym GlobalEnv = "(GlobalScope \<times> GlobalBinds) list"

text \<open>
  What the compiler is given: the parsers, \<^verbatim>\<open>rule.selectors\<close> of postcss (the selector
  split at its commas), the maker of the global bindings, and the number that
  \<^verbatim>\<open>generate\<close> puts in place of the \<^verbatim>\<open>Offset\<close> of the fragment at an offset of a node.
\<close>

record compiler_host =
  js :: js_host
  selectors :: "string \<Rightarrow> string list"
  globals :: "GlobalScope \<Rightarrow> GlobalEnv \<Rightarrow> GlobalBinds"
  placed :: "node \<Rightarrow> int \<Rightarrow> nat"

text \<open>
  The \<^verbatim>\<open>Map\<close> \<^verbatim>\<open>globalEnv\<close> is shared by all contexts of one compilation; it is kept as
  the list of its entries in the order of insertion.  The second field lists the scopes
  for which the maker has been called, in the order of the calls.
\<close>

record cstate =
  globalEnv :: GlobalEnv
  made :: "GlobalScope list"

record ccontext =
  globalScope :: GlobalScope
  inAtJs :: bool

definition loadGlobals :: "compiler_host \<Rightarrow> ccontext \<Rightarrow> cstate \<Rightarrow> GlobalBinds \<times> cstate" where
  "loadGlobals h g st =
     (case map_of (globalEnv st) (globalScope g) of
        Some binds \<Rightarrow> (binds, st)
      | None \<Rightarrow>
          (let binds = globals h (globalScope g) (globalEnv st)
           in (binds, \<lparr>globalEnv = globalEnv st @ [(globalScope g, binds)],
                       made = made st @ [globalScope g]\<rparr>)))"

subsection \<open>The program\<close>

text \<open>
  The generated text is kept as a tree.  A selector with fragments is the list of its
  literal slices and fragments in order; a fragment has the number for its \<^verbatim>\<open>Offset\<close>.
  The items of a block: a child pushed as it is; the region of an \<^verbatim>\<open>@js\<close> at-rule (the
  at-rule, the offset of the fragment, the number for the cursor, the code and the
  program of its block); a container rebuilt from the program of its children; a rule
  with a computed selector or rebuilt children; a declaration with a computed value.
  A program is what \<^verbatim>\<open>compileContainer\<close> returns when it is not empty: the container,
  \<^verbatim>\<open>inAtJs\<close>, \<^verbatim>\<open>hasCode\<close>, and the blocks with a body, each with the bindings of its
  prologue.
\<close>

datatype piece = Lit string | Frag nat user_code

datatype script =
    Child node
  | AtJs node nat nat user_code "prog option"
  | NewContainer node prog
  | RuleCode node "piece list option" "prog option"
  | DeclValue node nat user_code
and prog = Prog container bool bool "(GlobalBinds option \<times> script list) list"

fun is_code :: "script \<Rightarrow> bool" where
  "is_code (Child n) = False"
| "is_code s = True"

subsection \<open>Selectors\<close>

text \<open>
  The loop of \<^verbatim>\<open>compileSelector\<close> over \<^verbatim>\<open>rule.selectors\<close>, with its variables \<^verbatim>\<open>cut\<close> (here \<open>cut_at\<close>)
  and \<^verbatim>\<open>cursor\<close>; the pieces are collected in order.
\<close>

fun compileSelector_loop ::
  "compiler_host \<Rightarrow> node \<Rightarrow> string \<Rightarrow> int \<Rightarrow> int \<Rightarrow> string list \<Rightarrow> css_error + piece list" where
  "compileSelector_loop h rule sel cut_at cursor [] = Inr [Lit (slice_from sel cut_at)]"
| "compileSelector_loop h rule sel cut_at cursor (selector # rest) =
     (let start = indexOf_from sel selector cursor;
          cursor' = start + int (length selector)
      in if startsWith selector '':@js('' \<and> endsWith selector '')'' then
           (let exp = slice selector 5 (int (length selector) - 1);
                offset = start + 5
            in case userCode (js h) (node_source rule) offset exp [] of
                 Inl e \<Rightarrow> Inl e
               | Inr uc \<Rightarrow>
                   (case compileSelector_loop h rule sel cursor' cursor' rest of
                      Inl e \<Rightarrow> Inl e
                    | Inr ps \<Rightarrow> Inr (Lit (slice sel cut_at start) # Frag (placed h rule offset) uc # ps)))
         else
           (case checkInvalidAtJs selector (node_source rule) start of
              Inl e \<Rightarrow> Inl e
            | Inr u \<Rightarrow> compileSelector_loop h rule sel cut_at cursor' rest))"

fun compileSelector :: "compiler_host \<Rightarrow> node \<Rightarrow> css_error + piece list option" where
  "compileSelector h (Rule s r selector nodes) =
     (if indexOf ''@js'' selector = None then Inr None
      else
        (case compileSelector_loop h (Rule s r selector nodes) selector 0 0 (selectors h selector) of
           Inl e \<Rightarrow> Inl e
         | Inr ps \<Rightarrow> Inr (Some ps)))"
| "compileSelector h n = Inr None"


subsection \<open>Containers and their children\<close>

type_synonym block = "GlobalBinds option \<times> script list"

definition node_file :: "node \<Rightarrow> GlobalScope" where
  "node_file n = (case node_source n of None \<Rightarrow> None | Some s \<Rightarrow> input_file s)"

text \<open>
  \<^verbatim>\<open>hasCode\<close>, and the result of \<^verbatim>\<open>compileContainer\<close> once the blocks are known: the
  empty code is \<open>None\<close>.
\<close>

definition hasCode :: "block list \<Rightarrow> bool" where
  "hasCode blocks \<longleftrightarrow> list_ex (\<lambda>b. list_ex is_code (snd b)) blocks"

definition container_prog :: "ccontext \<Rightarrow> container \<Rightarrow> block list \<Rightarrow> prog option" where
  "container_prog cx c blocks =
     (if \<not> hasCode blocks \<and> \<not> inAtJs cx then None
      else Some (Prog c (inAtJs cx) (hasCode blocks) (filter (\<lambda>b. snd b \<noteq> []) blocks)))"

text \<open>
  \<^verbatim>\<open>compileContainerChildren\<close> is the loop over the children with the blocks finished so
  far and the current block, started with no finished block and a block without
  prologue; \<open>compileNode\<close> is the body of the loop after the test of the scope.  The
  formatting \<^verbatim>\<open>raws.before\<close>, which the loop moves from an \<^verbatim>\<open>@js\<close> at-rule to the node
  after it, is not modelled.
\<close>

fun container_size :: "container \<Rightarrow> nat" where
  "container_size (OfRoot s r nodes) = Suc (size_list size nodes)"
| "container_size (OfNode n) = size n"

lemma container_nodes_size: "size_list size (container_nodes c) \<le> container_size c"
  by (cases c rule: container_nodes.cases) simp_all

function compileContainerChildren ::
    "compiler_host \<Rightarrow> ccontext \<Rightarrow> block list \<Rightarrow> block \<Rightarrow> node list \<Rightarrow> cstate \<Rightarrow> (css_error + block list) \<times> cstate"
  and compileNode :: "compiler_host \<Rightarrow> ccontext \<Rightarrow> node \<Rightarrow> cstate \<Rightarrow> (css_error + script) \<times> cstate"
  and compileContainer :: "compiler_host \<Rightarrow> ccontext \<Rightarrow> container \<Rightarrow> cstate \<Rightarrow> (css_error + prog option) \<times> cstate"
where
  "compileContainerChildren h cx done cur [] st = (Inr (done @ [cur]), st)"
| "compileContainerChildren h cx done cur (n # ns) st =
     (if globalScope cx \<noteq> node_file n then
        (let cx' = cx\<lparr>globalScope := node_file n\<rparr>;
             (binds, st1) = loadGlobals h cx' st
         in case compileNode h cx' n st1 of
              (Inl e, st2) \<Rightarrow> (Inl e, st2)
            | (Inr item, st2) \<Rightarrow> compileContainerChildren h cx' (done @ [cur]) (Some binds, [item]) ns st2)
      else
        (case compileNode h cx n st of
           (Inl e, st2) \<Rightarrow> (Inl e, st2)
         | (Inr item, st2) \<Rightarrow> compileContainerChildren h cx done (fst cur, snd cur @ [item]) ns st2))"
| "compileNode h cx (AtRule s r name params nodes) st =
     (if name = ''js'' then
        (let offset = paramsOffset (AtRule s r name params nodes);
             prog = params @ atRuleBetween (AtRule s r name params nodes);
             stub = (if nodes \<noteq> None then ''({'' @ [newline] @ ''})'' else [])
         in case userCode (js h) s (int offset) prog stub of
              Inl e \<Rightarrow> (Inl e, st)
            | Inr uc \<Rightarrow>
                (if nodes \<noteq> None then
                   (case compileContainer h (cx\<lparr>inAtJs := True\<rparr>) (OfNode (AtRule s r name params nodes)) st of
                      (Inl e, st') \<Rightarrow> (Inl e, st')
                    | (Inr childCode, st') \<Rightarrow>
                        (Inr (AtJs (AtRule s r name params nodes) offset
                               (placed h (AtRule s r name params nodes) (int offset)) uc childCode), st'))
                 else
                   (Inr (AtJs (AtRule s r name params nodes) offset
                          (placed h (AtRule s r name params nodes) (int offset)) uc None), st)))
      else
        (case checkInvalidAtJs params s (int (paramsOffset (AtRule s r name params nodes))) of
           Inl e \<Rightarrow> (Inl e, st)
         | Inr u \<Rightarrow>
             (if nodes \<noteq> None then
                (case compileContainer h cx (OfNode (AtRule s r name params nodes)) st of
                   (Inl e, st') \<Rightarrow> (Inl e, st')
                 | (Inr None, st') \<Rightarrow> (Inr (Child (AtRule s r name params nodes)), st')
                 | (Inr (Some childCode), st') \<Rightarrow>
                     (Inr (NewContainer (AtRule s r name params nodes) childCode), st'))
              else (Inr (Child (AtRule s r name params nodes)), st))))"
| "compileNode h cx (Rule s r selector nodes) st =
     (case compileSelector h (Rule s r selector nodes) of
        Inl e \<Rightarrow> (Inl e, st)
      | Inr selectorCode \<Rightarrow>
          (case compileContainer h cx (OfNode (Rule s r selector nodes)) st of
             (Inl e, st') \<Rightarrow> (Inl e, st')
           | (Inr childCode, st') \<Rightarrow>
               (if selectorCode = None \<and> childCode = None then (Inr (Child (Rule s r selector nodes)), st')
                else (Inr (RuleCode (Rule s r selector nodes) selectorCode childCode), st'))))"
| "compileNode h cx (Decl s r p v) st =
     (case checkInvalidAtJs p s 0 of
        Inl e \<Rightarrow> (Inl e, st)
      | Inr u \<Rightarrow>
          (case exec_value_marker v of
             Some m \<Rightarrow>
               (let exp = slice_from v (int m);
                    offset = int (valueOffset (Decl s r p v) + m)
                in case userCode (js h) s offset exp [] of
                     Inl e \<Rightarrow> (Inl e, st)
                   | Inr uc \<Rightarrow> (Inr (DeclValue (Decl s r p v) (placed h (Decl s r p v) offset) uc), st))
           | None \<Rightarrow>
               (case checkInvalidAtJs v s (int (valueOffset (Decl s r p v))) of
                  Inl e \<Rightarrow> (Inl e, st)
                | Inr u \<Rightarrow> (Inr (Child (Decl s r p v)), st))))"
| "compileNode h cx (Comment s r t) st = (Inr (Child (Comment s r t)), st)"
| "compileContainer h cx c st =
     (case compileContainerChildren h cx [] (None, []) (container_nodes c) st of
        (Inl e, st') \<Rightarrow> (Inl e, st')
      | (Inr blocks, st') \<Rightarrow> (Inr (container_prog cx c blocks), st'))"
  by pat_completeness auto

termination
proof (relation "measure (\<lambda>x. case x of
          Inl (h, cx, done, cur, nodes, st) \<Rightarrow> 3 * size_list size nodes
        | Inr (Inl (h, cx, n, st)) \<Rightarrow> 3 * size n + 2
        | Inr (Inr (h, cx, c, st)) \<Rightarrow> 3 * container_size c + 1)", goal_cases)
  case (9 h cx c st)
  have "size_list size (container_nodes c) \<le> container_size c"
    by (rule container_nodes_size)
  then show ?case by simp
qed simp_all


text \<open>
  \<^verbatim>\<open>compile\<close>: the root is compiled in a context whose scope is the empty string, which
  is the scope of no file, with a new map.
\<close>

definition compile :: "compiler_host \<Rightarrow> container \<Rightarrow> (css_error + prog option) \<times> cstate" where
  "compile h root =
     compileContainer h \<lparr>globalScope = Some [], inAtJs = False\<rparr> root \<lparr>globalEnv = [], made = []\<rparr>"

subsection \<open>What the program does\<close>

text \<open>
  The generated text is JavaScript, run by the host.  Its meaning is given here for the
  statements that \<^verbatim>\<open>compile.ts\<close> writes around the fragments; the fragments themselves
  are the host's: \<open>fragment w n uc b\<close> says what the fragment of the \<^verbatim>\<open>@js\<close> at-rule \<open>n\<close>
  yields (with the value of the whole fragment when it is an expression, and with its
  block \<open>b\<close> applied if it has one) and how it ends; \<open>expression w n uc\<close> is the value of
  a fragment in a declaration value or a selector, or what it throws.  A block passed to
  a fragment is run before the fragment.
\<close>

datatype outcome = Completes | Returns | Throws thrown

record world =
  rt :: rt_host
  fragment :: "node \<Rightarrow> user_code \<Rightarrow> jsval option \<Rightarrow> jsval list \<times> outcome"
  expression :: "node \<Rightarrow> user_code \<Rightarrow> thrown + jsval"

text \<open>
  \<^verbatim>\<open>interpretMain(function)\<close> as a value: the iterable of the nodes that the main loop
  yields for what the function yields.
\<close>

definition interpretMain :: "rt_host \<Rightarrow> iterator \<Rightarrow> jsval option" where
  "interpretMain h contents =
     (case mainLoop h contents of
        None \<Rightarrow> None
      | Some (Inl e, st) \<Rightarrow> Some (Iter (map Node (ml_yielded st)) (Inl e))
      | Some (Inr r, st) \<Rightarrow> Some (Iter (map Node (ml_yielded st)) (Inr (raws_object r))))"

text \<open>\<^verbatim>\<open>await newContainer(node, iterable)\<close> for such an iterable.\<close>

definition rebuilt :: "rt_host \<Rightarrow> node \<Rightarrow> iterator \<Rightarrow> (thrown + node) option" where
  "rebuilt h n contents =
     (case mainLoop h contents of
        None \<Rightarrow> None
      | Some (Inl e, st) \<Rightarrow> Some (Inl e)
      | Some (Inr r, st) \<Rightarrow> Some (newContainer n (Inr (ml_yielded st, r))))"

fun set_selector :: "node \<Rightarrow> string \<Rightarrow> node" where
  "set_selector (Rule s r selector nodes) sel = Rule s r sel nodes"
| "set_selector n sel = n"

fun set_value :: "node \<Rightarrow> string \<Rightarrow> node" where
  "set_value (Decl s r p v) v' = Decl s r p v'"
| "set_value n v' = n"

text \<open>
  The statements of \<^verbatim>\<open>coerceToExpr\<close> and the \<^verbatim>\<open>stringify\<close> after them, for the pieces of
  a selector: the cursor after them and the text joined, or the error.
\<close>

fun run_pieces :: "world \<Rightarrow> node \<Rightarrow> nat \<Rightarrow> piece list \<Rightarrow> nat \<times> (thrown + string)" where
  "run_pieces w n cursor [] = (cursor, Inr [])"
| "run_pieces w n cursor (Lit s # ps) =
     (case run_pieces w n cursor ps of
        (c, Inl e) \<Rightarrow> (c, Inl e)
      | (c, Inr t) \<Rightarrow> (c, Inr (s @ t)))"
| "run_pieces w n cursor (Frag k uc # ps) =
     (case expression w n uc of
        Inl e \<Rightarrow> (k, Inl e)
      | Inr v \<Rightarrow>
          (case stringify (rt w) v of
             Inl e \<Rightarrow> (k, Inl e)
           | Inr s \<Rightarrow>
               (case run_pieces w n k ps of
                  (c, Inl e) \<Rightarrow> (c, Inl e)
                | (c, Inr t) \<Rightarrow> (c, Inr (s @ t)))))"

text \<open>
  An item of a block, a body, the blocks of a container, and the generator function of a
  container.  The results of the first three are what was yielded, the cursor, and how
  the run ended; \<open>None\<close> is a run that does not end.  A block is a generator of its own
  (\<^verbatim>\<open>yield* (async function*() { ... }.call(container))\<close>): a \<^verbatim>\<open>return\<close> ends the block,
  and the next block runs.  When the container has code its blocks are inside
  \<^verbatim>\<open>try { ... } catch (e) { yield new EndJs(false); handleError(e, cursor); }\<close>.
\<close>

fun run_script :: "world \<Rightarrow> nat \<Rightarrow> script \<Rightarrow> (jsval list \<times> nat \<times> outcome) option"
  and run_body :: "world \<Rightarrow> nat \<Rightarrow> script list \<Rightarrow> (jsval list \<times> nat \<times> outcome) option"
  and run_blocks :: "world \<Rightarrow> nat \<Rightarrow> block list \<Rightarrow> (jsval list \<times> nat \<times> outcome) option"
  and run_prog :: "world \<Rightarrow> prog \<Rightarrow> iterator option"
where
  "run_script w cursor (Child n) = Some ([Node n], cursor, Completes)"
| "run_script w cursor (AtJs n offset k uc None) =
     (case fragment w n uc None of
        (ys, Completes) \<Rightarrow> Some (BeginJs n offset k # ys @ [EndJs True], k, Completes)
      | (ys, ending) \<Rightarrow> Some (BeginJs n offset k # ys, k, ending))"
| "run_script w cursor (AtJs n offset k uc (Some p)) =
     (case run_prog w p of
        None \<Rightarrow> None
      | Some contents \<Rightarrow>
          (case interpretMain (rt w) contents of
             None \<Rightarrow> None
           | Some b \<Rightarrow>
               (case fragment w n uc (Some b) of
                  (ys, Completes) \<Rightarrow> Some (BeginJs n offset k # ys @ [EndJs True], k, Completes)
                | (ys, ending) \<Rightarrow> Some (BeginJs n offset k # ys, k, ending))))"
| "run_script w cursor (NewContainer n p) =
     (case run_prog w p of
        None \<Rightarrow> None
      | Some contents \<Rightarrow>
          (case rebuilt (rt w) n contents of
             None \<Rightarrow> None
           | Some (Inl e) \<Rightarrow> Some ([], cursor, Throws e)
           | Some (Inr dest) \<Rightarrow> Some ([Node dest], cursor, Completes)))"
| "run_script w cursor (RuleCode n None None) = Some ([Node n], cursor, Completes)"
| "run_script w cursor (RuleCode n None (Some p)) =
     (case run_prog w p of
        None \<Rightarrow> None
      | Some contents \<Rightarrow>
          (case rebuilt (rt w) n contents of
             None \<Rightarrow> None
           | Some (Inl e) \<Rightarrow> Some ([], cursor, Throws e)
           | Some (Inr dest) \<Rightarrow> Some ([Node dest], cursor, Completes)))"
| "run_script w cursor (RuleCode n (Some ps) None) =
     (case run_pieces w n cursor ps of
        (c, Inl e) \<Rightarrow> Some ([], c, Throws e)
      | (c, Inr sel) \<Rightarrow> Some ([Node (set_selector n sel)], c, Completes))"
| "run_script w cursor (RuleCode n (Some ps) (Some p)) =
     (case run_pieces w n cursor ps of
        (c, Inl e) \<Rightarrow> Some ([], c, Throws e)
      | (c, Inr sel) \<Rightarrow>
          (case run_prog w p of
             None \<Rightarrow> None
           | Some contents \<Rightarrow>
               (case rebuilt (rt w) n contents of
                  None \<Rightarrow> None
                | Some (Inl e) \<Rightarrow> Some ([], c, Throws e)
                | Some (Inr dest) \<Rightarrow> Some ([Node (set_selector dest sel)], c, Completes))))"
| "run_script w cursor (DeclValue n k uc) =
     (case expression w n uc of
        Inl e \<Rightarrow> Some ([], k, Throws e)
      | Inr v \<Rightarrow>
          (case stringify (rt w) v of
             Inl e \<Rightarrow> Some ([], k, Throws e)
           | Inr s \<Rightarrow> Some ([Node (set_value n s)], k, Completes)))"
| "run_body w cursor [] = Some ([], cursor, Completes)"
| "run_body w cursor (s # ss) =
     (case run_script w cursor s of
        None \<Rightarrow> None
      | Some (ys, c, Completes) \<Rightarrow>
          (case run_body w c ss of
             None \<Rightarrow> None
           | Some (zs, c', ending) \<Rightarrow> Some (ys @ zs, c', ending))
      | Some (ys, c, ending) \<Rightarrow> Some (ys, c, ending))"
| "run_blocks w cursor [] = Some ([], cursor, Completes)"
| "run_blocks w cursor (b # bs) =
     (case run_body w cursor (snd b) of
        None \<Rightarrow> None
      | Some (ys, c, Throws e) \<Rightarrow> Some (ys, c, Throws e)
      | Some (ys, c, ending) \<Rightarrow>
          (case run_blocks w c bs of
             None \<Rightarrow> None
           | Some (zs, c', ending') \<Rightarrow> Some (ys @ zs, c', ending')))"
| "run_prog w (Prog c in_at_js has_code blocks) =
     (case run_blocks w 0 blocks of
        None \<Rightarrow> None
      | Some (ys, cursor, Throws e) \<Rightarrow>
          Some (if has_code then (ys @ [EndJs False], Inl (handleError e cursor)) else (ys, Inl e))
      | Some (ys, cursor, ending) \<Rightarrow> Some (ys, Inr (raws_object (semicolon (container_raws c)))))"

section \<open>Notions used by the statements\<close>

text \<open>
  The body of a quoted literal as the mask reads it: characters other than the quote \<open>q\<close>
  and the backslash, and backslashes each followed by a character that is not a line
  terminator.
\<close>

fun str_body :: "char \<Rightarrow> string \<Rightarrow> bool" where
  "str_body q [] = True"
| "str_body q [c] = (c \<noteq> q \<and> c \<noteq> backslash)"
| "str_body q (c # d # cs) =
     (if c = backslash then \<not> is_line_terminator d \<and> str_body q cs
      else c \<noteq> q \<and> str_body q (d # cs))"

text \<open>
  The variable \<^verbatim>\<open>cursor\<close> of \<^verbatim>\<open>compileSelector\<close> after the components \<open>cs\<close> of a selector,
  when none of them raises an error: a component of the form \<^verbatim>\<open>:@js(...)\<close> whose fragment
  is valid, or a component in which the mask leaves no marker.
\<close>

fun selector_cursor :: "compiler_host \<Rightarrow> node \<Rightarrow> string \<Rightarrow> int \<Rightarrow> string list \<Rightarrow> int option" where
  "selector_cursor h rule sel cursor [] = Some cursor"
| "selector_cursor h rule sel cursor (c # cs) =
     (let start = indexOf_from sel c cursor
      in if (if startsWith c '':@js('' \<and> endsWith c '')''
             then \<not> isl (userCode (js h) (node_source rule) (start + 5) (slice c 5 (int (length c) - 1)) [])
             else indexOf ''@js'' (mask_strings c) = None)
         then selector_cursor h rule sel (start + int (length c)) cs
         else None)"

text \<open>
  A location tag read as a chain: its end, the sum of the offsets that are numbers, and
  whether some offset is \<^verbatim>\<open>null\<close>.
\<close>

fun loc_end :: "loc \<Rightarrow> loc" where
  "loc_end (LTagged src f) = loc_end src"
| "loc_end l = l"

fun loc_sum :: "loc \<Rightarrow> int" where
  "loc_sum (LTagged src (Off n)) = loc_sum src + n"
| "loc_sum (LTagged src f) = loc_sum src"
| "loc_sum l = 0"

fun loc_null :: "loc \<Rightarrow> bool" where
  "loc_null (LTagged src OffNull) = True"
| "loc_null (LTagged src f) = loc_null src"
| "loc_null l = False"

text \<open>
  A code whose nested codes all carry the tag \<^verbatim>\<open>'relative'\<close>, the tag that \<^verbatim>\<open>CODE()\<close>
  gives when it is called without a location.
\<close>

fun relative_only :: "code \<Rightarrow> bool" where
  "relative_only (Str s) = True"
| "relative_only (Code items tag) = (tag = LRelative \<and> list_all relative_only items)"

text \<open>
  The rule of the positions, node by node.  The characters of the strings that stand
  directly in a code count for the distance when the tag chain of the code ends in a
  source and has no \<^verbatim>\<open>null\<close> offset; \<open>counted c x\<close> is the number of characters of the item
  \<open>x\<close> that count, where \<open>c\<close> says whether the strings of the code around it do.
\<close>

fun counts :: "loc \<Rightarrow> bool" where
  "counts tag = (case loc_end tag of LSource s \<Rightarrow> \<not> loc_null tag | _ \<Rightarrow> False)"

fun counted :: "bool \<Rightarrow> code \<Rightarrow> nat" where
  "counted c (Str s) = (if c then length s else 0)"
| "counted c (Code items tag) = sum_list (map (counted (counts tag)) items)"

text \<open>
  \<open>char_offsets src base c d x\<close> are the positions of the characters of the item \<open>x\<close> of a
  code with the source \<open>src\<close> and the base \<open>base\<close>, at the distance \<open>d\<close> from the start of
  that code.  A character of a string maps to the base plus its distance when the
  strings of the code count, and to the base otherwise.  A nested code whose chain ends
  in a source has this source and the sum of the offsets of its own chain as its base; one
  whose chain ends in \<^verbatim>\<open>'relative'\<close> has the source of the code around it, and its base
  is the base of that code plus the distance plus the offsets of its own chain; one whose
  chain ends in \<^verbatim>\<open>undefined\<close> has no source.
\<close>

fun char_offsets :: "source option \<Rightarrow> int \<Rightarrow> bool \<Rightarrow> int \<Rightarrow> code \<Rightarrow> (source \<times> int) option list"
  and item_offsets :: "source option \<Rightarrow> int \<Rightarrow> bool \<Rightarrow> int \<Rightarrow> code list \<Rightarrow> (source \<times> int) option list"
where
  "char_offsets src base c d (Str s) =
     (case src of
        None \<Rightarrow> replicate (length s) None
      | Some \<sigma> \<Rightarrow> map (\<lambda>i. Some (\<sigma>, if c then base + d + int i else base)) [0..<length s])"
| "char_offsets src base c d (Code items tag) =
     (case loc_end tag of
        LSource \<sigma> \<Rightarrow> item_offsets (Some \<sigma>) (loc_sum tag) (\<not> loc_null tag) 0 items
      | LRelative \<Rightarrow> item_offsets src (base + d + loc_sum tag) False 0 items
      | _ \<Rightarrow> item_offsets None (loc_sum tag) False 0 items)"
| "item_offsets src base c d [] = []"
| "item_offsets src base c d (x # xs) =
     char_offsets src base c d x @ item_offsets src base c (d + int (counted c x)) xs"

text \<open>A frame of \<^verbatim>\<open>SourceMap.force\<close> whose strings move the cursor.\<close>

definition frame_counts :: "sm_frame \<Rightarrow> bool" where
  "frame_counts fr \<longleftrightarrow> cl_source (fr_loc fr) \<noteq> None \<and> cl_inc (fr_loc fr) = 1"

text \<open>
  A frame of \<^verbatim>\<open>SourceMap.force\<close> that maps every character to one position, entered with
  the cursor where it stands.
\<close>

definition fixed_frame :: "source \<Rightarrow> int \<Rightarrow> sm_frame \<Rightarrow> sm_state \<Rightarrow> bool" where
  "fixed_frame src off fr st \<longleftrightarrow>
     cl_source (fr_loc fr) = Some src \<and> cl_offset (fr_loc fr) = off \<and> cl_inc (fr_loc fr) = 0
     \<and> fr_start fr = sm_cursor st"

text \<open>
  The two texts that \<^verbatim>\<open>userCode\<close> gives to \<^verbatim>\<open>Function\<close>, and the code of a valid
  fragment.
\<close>

definition expression_prefix :: string where
  "expression_prefix = ''async function* f(){ return ('' @ [newline]"




definition fragment_code :: "source option \<Rightarrow> int \<Rightarrow> string \<Rightarrow> fragment" where
  "fragment_code at_source offset sourceCode = Fragment [FStr sourceCode] (LTagged (source_loc at_source) (Off offset))"




text \<open>
  The characters of the name of an at-rule in a key: neither white space nor a meta
  character.
\<close>

definition name_char :: "char \<Rightarrow> bool" where
  "name_char c \<longleftrightarrow> \<not> css_space c \<and> \<not> css_meta c"

text \<open>
  \<^verbatim>\<open>context.reflect(node)\<close> taken apart: the node with the source of the active
  \<^verbatim>\<open>BeginJs\<close> when it has none of its own, and the context without its raws.
\<close>

definition attributed :: "icontext \<Rightarrow> node \<Rightarrow> node" where
  "attributed cx n = snd (reflect cx n)"

definition reflected :: "icontext \<Rightarrow> icontext" where
  "reflected cx = cx\<lparr>ic_raws := None\<rparr>"

text \<open>The node of an entry before what the entries after it yield and how they end.\<close>

definition followed_by :: "node \<Rightarrow> node list \<times> (thrown + icontext) \<Rightarrow> node list \<times> (thrown + icontext)" where
  "followed_by n rest = (case rest of (ms, res) \<Rightarrow> (n # ms, res))"

text \<open>
  The node that the rule of object interpretation gives for an entry: an at-rule for a
  key that starts with \<^verbatim>\<open>@\<close>, without block when the value is \<^verbatim>\<open>undefined\<close> and with
  the nodes of the interpreted value as its block otherwise; a rule for another key and
  an interpretable value, with the nodes of the interpreted value; a declaration of the
  string of the value otherwise.
\<close>

fun entry_node :: "rt_host \<Rightarrow> icontext \<Rightarrow> string \<times> jsval \<Rightarrow> node \<Rightarrow> bool" where
  "entry_node h cx (key, v) (AtRule s r name params nodes) \<longleftrightarrow>
     startsWith key ''@'' \<and> name = takeWhile name_char (tl key)
     \<and> params = dropWhile css_space (dropWhile name_char (tl key))
     \<and> (if v = Undefined then nodes = None
         else isInterpretable v \<and> nodes = Some (fst (interpretUnknown h (nest cx) v)))"
| "entry_node h cx (key, v) (Rule s r selector nodes) \<longleftrightarrow>
     \<not> startsWith key ''@'' \<and> isInterpretable v \<and> selector = key
     \<and> nodes = fst (interpretUnknown h (nest cx) v)"
| "entry_node h cx (key, v) (Decl s r p val) \<longleftrightarrow>
     \<not> startsWith key ''@'' \<and> \<not> isInterpretable v \<and> isStringifiable v \<and> p = key
     \<and> js_String h v = Inr val"
| "entry_node h cx (key, v) (Comment s r t) \<longleftrightarrow> False"

text \<open>
  The calls that a pending function leads to when it is called without argument: \<open>f\<close>
  returns the function \<open>g\<^sub>1\<close>, which returns \<open>g\<^sub>2\<close>, and so on, and the last of them
  returns \<open>v\<close>, which is not a function.
\<close>

fun call_chain :: "rt_host \<Rightarrow> nat \<Rightarrow> nat list \<Rightarrow> jsval \<Rightarrow> bool" where
  "call_chain h f [] v \<longleftrightarrow> call h f None = Inr v \<and> \<not> isFunction v"
| "call_chain h f (g # gs) v \<longleftrightarrow> call h f None = Inr (Func g) \<and> call_chain h g gs v"

text \<open>After a round: the result of the generator, or the loop from the new state.\<close>

definition continue_with :: "rt_host \<Rightarrow> ((thrown + bool option) \<times> ml_state) + ml_state \<Rightarrow> ((thrown + bool option) \<times> ml_state) option" where
  "continue_with h step = (case step of Inl r \<Rightarrow> Some r | Inr st \<Rightarrow> mainLoop_from h st)"

fun is_EndJs :: "jsval \<Rightarrow> bool" where
  "is_EndJs (EndJs b) = True"
| "is_EndJs v = False"

text \<open>
  The item that a round of the main loop works on, with the state in which it is held:
  the item that is held already, or the next item of the iterators.
\<close>

definition held :: "ml_state \<Rightarrow> (jsval \<times> ml_state) option" where
  "held st =
     (case ml_next st of
        Some item \<Rightarrow> Some (item, st)
      | None \<Rightarrow>
          (case fetch (ml_context st) (ml_iter st) (ml_stack st) of
             Fetched item cx it stack \<Rightarrow>
               Some (item, st\<lparr>ml_next := Some item, ml_context := cx, ml_iter := it, ml_stack := stack\<rparr>)
           | _ \<Rightarrow> None))"

text \<open>The items of a block that are block-level fragments.\<close>

fun is_AtJs :: "script \<Rightarrow> bool" where
  "is_AtJs (AtJs n offset k uc b) = True"
| "is_AtJs s = False"

text \<open>What a block has yielded, before what the blocks after it do.\<close>

definition after_block :: "jsval list \<Rightarrow> (jsval list \<times> nat \<times> outcome) option \<Rightarrow> (jsval list \<times> nat \<times> outcome) option" where
  "after_block ys rest = (case rest of None \<Rightarrow> None | Some (zs, c, ending) \<Rightarrow> Some (ys @ zs, c, ending))"

text \<open>
  The state of a compilation is sound when the maker was called at most once for a
  scope and the scopes of the map are those for which it was called.  A later state
  extends an earlier one when the entries of the map and the calls are kept, in their
  order, and new ones come after them.
\<close>

definition cached :: "cstate \<Rightarrow> bool" where
  "cached st \<longleftrightarrow> distinct (made st) \<and> map fst (globalEnv st) = made st"

definition extends :: "cstate \<Rightarrow> cstate \<Rightarrow> bool" where
  "extends st st' \<longleftrightarrow> prefix (globalEnv st) (globalEnv st') \<and> prefix (made st) (made st')"

definition keeps_cache :: "cstate \<Rightarrow> cstate \<Rightarrow> bool" where
  "keeps_cache st st' \<longleftrightarrow> (cached st \<longrightarrow> cached st' \<and> extends st st')"

subsection \<open>A host for the examples\<close>

text \<open>
  A parser that accepts every text, no acorn, a selector without commas, no global
  bindings, and a style sheet \<^verbatim>\<open>1.css\<close>.
\<close>

definition sample_js :: js_host where
  "sample_js = \<lparr>compiles = (\<lambda>t. None), acorn = None\<rparr>"

definition sample_compiler :: compiler_host where
  "sample_compiler =
     \<lparr>js = sample_js, selectors = (\<lambda>s. [s]), globals = (\<lambda>scope env. []), placed = (\<lambda>n offset. 0)\<rparr>"

definition sample_source :: source where
  "sample_source = \<lparr>input_file = Some ''1.css'', start_offset = Some 0\<rparr>"

definition sample_context :: ccontext where
  "sample_context = \<lparr>globalScope = Some ''1.css'', inAtJs = False\<rparr>"

definition sample_cstate :: cstate where
  "sample_cstate = \<lparr>globalEnv = [], made = []\<rparr>"

text \<open>
  A host of the run time for the examples: \<^verbatim>\<open>inspect\<close> prints the primitive values, every
  guest function returns \<^verbatim>\<open>undefined\<close>.  The string of an integer is its decimal digits;
  that is \<^verbatim>\<open>String()\<close> of the integers below \<open>10\<^sup>2\<^sup>1\<close> in absolute value, and the examples
  have no other numbers.  Of the objects, \<^verbatim>\<open>toString\<close> of the one of the name
  \<^verbatim>\<open>unprintable\<close> throws, and the string of any other is its name.  No example asks
  for the string of another value.
\<close>

fun digit_chars :: "nat \<Rightarrow> nat \<Rightarrow> string" where
  "digit_chars 0 n = []"
| "digit_chars (Suc fuel) n =
     (if 10 \<le> n then digit_chars fuel (n div 10) else []) @ [char_of (n mod 10 + 48)]"

definition number_text :: "int \<Rightarrow> string" where
  "number_text i =
     (if 0 \<le> i then digit_chars (Suc (nat i)) (nat i)
      else CHR ''-'' # digit_chars (Suc (nat (- i))) (nat (- i)))"

definition toy_String :: "jsval \<Rightarrow> thrown + string" where
  "toy_String v =
     (case v of
        JNum i \<Rightarrow> Inr (number_text i)
      | Obj own s \<Rightarrow>
          if s = ''unprintable''
          then Inl \<lparr>message = ''Error: unprintable'', is_object = True, frozen = False, errorPos = None\<rparr>
          else Inr s
      | _ \<Rightarrow> Inr [])"


fun toy_inspect :: "nat \<Rightarrow> jsval \<Rightarrow> string" where
  "toy_inspect depth Null = ''null''"
| "toy_inspect depth Undefined = ''undefined''"
| "toy_inspect depth (JBool b) = (if b then ''true'' else ''false'')"
| "toy_inspect depth (JNum i) = number_text i"
| "toy_inspect depth (JStr s) = [squote] @ s @ [squote]"
| "toy_inspect depth (Func f) = ''[Function (anonymous)]''"
| "toy_inspect depth v = ''[Object]''"

definition sample_rt :: rt_host where
  "sample_rt = \<lparr>inspect = toy_inspect, call = (\<lambda>f arg. Inr Undefined), to_String = toy_String\<rparr>"

definition no_context :: icontext where
  "no_context = \<lparr>ic_source = None, ic_raws = None\<rparr>"

text \<open>
  A parser for the examples: a text with a double quote does not compile (the quote opens
  a string that never ends), and neither \<^verbatim>\<open>const\<close> nor \<^verbatim>\<open>return\<close> can start an
  expression.  Acorn reports the position of the quote; it does not take a text that
  begins with \<^verbatim>\<open>yield\<close> and a string, which is no statement outside a generator; of a
  text that it takes it returns the places of \<^verbatim>\<open>import(\<close>.
\<close>

definition toy_compiles :: "string \<Rightarrow> string option" where
  "toy_compiles t =
     (if dquote \<in> set t then Some ''SyntaxError: Invalid or unexpected token''
      else if prefix (expression_prefix @ ''const '') t then Some ''SyntaxError: Unexpected token const''
      else if prefix (expression_prefix @ ''return'') t then Some ''SyntaxError: Unexpected token return''
      else None)"



definition toy_js :: "(string \<Rightarrow> acorn_result) option \<Rightarrow> js_host" where
  "toy_js parser = \<lparr>compiles = toy_compiles, acorn = parser\<rparr>"

text \<open>
  Guest functions for the examples: function 0 returns function 1, and function 1 makes
  an at-rule \<^verbatim>\<open>@media print\<close> whose block is its argument.
\<close>

definition curried_rt :: rt_host where
  "curried_rt =
     \<lparr>inspect = toy_inspect,
      call = (\<lambda>f arg. if f = 0 then Inr (Func 1)
                      else Inr (Plain [(''@media print'', case arg of None \<Rightarrow> Undefined | Some v \<Rightarrow> v)])),
      to_String = toy_String\<rparr>"

text \<open>
  Guest code for the examples, read by its text: \<^verbatim>\<open>return\<close>, \<^verbatim>\<open>throw 'testfail'\<close>, the
  expression \<^verbatim>\<open>null.fail\<close>, which throws an error object, the expressions \<^verbatim>\<open>null\<close>
  and \<^verbatim>\<open>undefined\<close>, and the object \<^verbatim>\<open>({ color })\<close> where \<^verbatim>\<open>color\<close> is \<^verbatim>\<open>'blue'\<close>; any
  other block-level fragment yields nothing, any other expression is a string.
\<close>

fun fragment_text :: "fragment \<Rightarrow> string" where
  "fragment_text (Fragment [FStr t] tag) = t"
| "fragment_text f = []"

definition toy_fragment :: "node \<Rightarrow> user_code \<Rightarrow> jsval option \<Rightarrow> jsval list \<times> outcome" where
  "toy_fragment n uc b =
     (let t = fragment_text (ucode uc) in
      if t = ''return'' then ([], Returns)
      else if t = ''throw '' @ [squote] @ ''testfail'' @ [squote]
        then ([], Throws \<lparr>message = ''testfail'', is_object = False, frozen = False, errorPos = None\<rparr>)
      else if t = ''null.fail''
        then ([], Throws \<lparr>message = ''Cannot read properties of null'', is_object = True, frozen = False,
                          errorPos = None\<rparr>)
      else if t = ''null'' then ([Null], Completes)
      else if t = ''undefined'' then ([Undefined], Completes)
      else if t = ''({ color })'' then ([Plain [(''color'', JStr ''blue'')]], Completes)
      else ([], Completes))"

definition toy_expression :: "node \<Rightarrow> user_code \<Rightarrow> thrown + jsval" where
  "toy_expression n uc =
     (let t = fragment_text (ucode uc) in
      if t = ''undefined'' then Inr Undefined
      else if t = ''null'' then Inr Null
      else Inr (JStr t))"

definition toy_world :: world where
  "toy_world = \<lparr>rt = sample_rt, fragment = toy_fragment, expression = toy_expression\<rparr>"

definition at_js :: "nat \<Rightarrow> string \<Rightarrow> node" where
  "at_js k params = AtRule (Some \<lparr>input_file = Some ''1.css'', start_offset = Some k\<rparr>)
     \<lparr>between = None, afterName = Some '' '', semicolon = None\<rparr> ''js'' params None"

definition guest :: "nat \<Rightarrow> bool \<Rightarrow> string \<Rightarrow> user_code" where
  "guest k e t = \<lparr>expr = e, ucode = fragment_code (Some \<lparr>input_file = Some ''1.css'', start_offset = Some k\<rparr>) 4 t\<rparr>"

text \<open>
  A compiler for the examples: the parser above without acorn, and a maker of global
  bindings whose result tells the scope and the number of scopes made before it.
\<close>

definition toy_globals :: "GlobalScope \<Rightarrow> GlobalEnv \<Rightarrow> GlobalBinds" where
  "toy_globals scope env =
     [(''__filename'', case scope of None \<Rightarrow> Undefined | Some f \<Rightarrow> JStr f),
      (''loaded'', JNum (int (length env)))]"

definition toy_compiler :: compiler_host where
  "toy_compiler =
     \<lparr>js = toy_js None, selectors = (\<lambda>s. [s]), globals = toy_globals, placed = (\<lambda>n offset. 0)\<rparr>"

definition in_file :: "string \<Rightarrow> nat \<Rightarrow> source" where
  "in_file f k = \<lparr>input_file = Some f, start_offset = Some k\<rparr>"

text \<open>
  A rule \<^verbatim>\<open>samp\<close> of \<^verbatim>\<open>1.css\<close> with a \<^verbatim>\<open>return\<close> among its children, and a last child that
  comes from \<^verbatim>\<open>2.css\<close>.
\<close>

definition samp :: node where
  "samp = Rule (Some (in_file ''1.css'' 0)) empty_raws ''samp''
     [Decl (Some (in_file ''1.css'' 7)) empty_raws ''border'' ''thin'',
      at_js 20 ''({ color })'',
      at_js 40 ''return'',
      Decl (Some (in_file ''1.css'' 50)) empty_raws ''background-color'' ''white'',
      at_js 80 ''({ color })'',
      Decl (Some (in_file ''2.css'' 0)) empty_raws ''margin'' ''0'']"

text \<open>The blocks of that rule, and three nodes of a root: of \<^verbatim>\<open>1.css\<close>, \<^verbatim>\<open>2.css\<close> and \<^verbatim>\<open>1.css\<close>.\<close>

definition samp_blocks :: "block list" where
  "samp_blocks =
     [(None,
       [Child (Decl (Some (in_file ''1.css'' 7)) empty_raws ''border'' ''thin''),
        AtJs (at_js 20 ''({ color })'') 4 0 (guest 20 True ''({ color })'') None,
        AtJs (at_js 40 ''return'') 4 0 (guest 40 False ''return'') None,
        Child (Decl (Some (in_file ''1.css'' 50)) empty_raws ''background-color'' ''white''),
        AtJs (at_js 80 ''({ color })'') 4 0 (guest 80 True ''({ color })'') None]),
      (Some [(''__filename'', JStr ''2.css''), (''loaded'', JNum 0)],
       [Child (Decl (Some (in_file ''2.css'' 0)) empty_raws ''margin'' ''0'')])]"

definition three_parts :: "node list" where
  "three_parts =
     [at_js 0 ''const a = 1'',
      Decl (Some (in_file ''2.css'' 0)) empty_raws ''margin'' ''0'',
      at_js 30 ''const c = 3'']"

chapter \<open>Properties\<close>

section \<open>The structural check for the marker\<close>

lemma match_body_bounds: "match_body q cs = Some n \<Longrightarrow> 0 < n \<and> n \<le> length cs"
  by (induction q cs arbitrary: n rule: match_body.induct)
     (auto split: if_splits list.splits)

lemma length_mask_from: "length (mask_from b s) = length s"
proof (induction b s rule: mask_from.induct)
  case (1 b)
  then show ?case by simp
next
  case (2 b c cs)
  then show ?case
    by (auto split: option.splits dest: match_body_bounds)
qed

lemma mask_from_nth:
  "i < length s \<Longrightarrow> mask_from b s ! i = s ! i \<or> mask_from b s ! i = CHR ''*''"
proof (induction b s arbitrary: i rule: mask_from.induct)
  case (1 b)
  then show ?case by simp
next
  case (2 b c cs)
  show ?case
  proof (cases "(c = squote \<or> c = dquote) \<and> \<not> b")
    case True
    show ?thesis
    proof (cases "match_body c cs")
      case None
      with True 2 show ?thesis by (cases i) auto
    next
      case (Some n)
      from match_body_bounds[OF Some] have n: "0 < n" "n \<le> length cs" by auto
      show ?thesis
      proof (cases "i < Suc n")
        case True
        with \<open>(c = squote \<or> c = dquote) \<and> \<not> b\<close> Some show ?thesis
          by (simp add: nth_append del: replicate_Suc)
      next
        case False
        then have "i - Suc n < length (drop n cs)" using 2(4) n by auto
        from 2(2)[OF True Some this] False n True Some show ?thesis
          by (auto simp add: nth_append simp del: replicate_Suc)
      qed
    qed
  next
    case False
    with 2 show ?thesis by (cases i) auto
  qed
qed

lemma match_body_literal:
  "str_body q body \<Longrightarrow> q \<noteq> backslash \<Longrightarrow> match_body q (body @ q # rest) = Some (Suc (length body))"
  by (induction q body rule: str_body.induct) (auto)

lemma mask_from_plain:
  "\<forall>c \<in> set pre. c \<noteq> squote \<and> c \<noteq> dquote \<Longrightarrow>
   mask_from b (pre @ rest) = pre @ mask_from (if pre = [] then b else last pre = backslash) rest"
  by (induction pre arbitrary: b) auto

lemma indexOf_stars:
  "indexOf ''@js'' (replicate n (CHR ''*'') @ rest) = map_option (\<lambda>i. n + i) (indexOf ''@js'' rest)"
  by (induction n) (auto simp: option.map_comp comp_def option.map_ident)

lemma prefix_atjs_star:
  "prefix ''@js'' (pre @ CHR ''*'' # rest) \<longleftrightarrow> prefix ''@js'' pre"
proof (cases pre)
  case Nil
  then show ?thesis by simp
next
  case (Cons a p1)
  show ?thesis
  proof (cases p1)
    case Nil
    with Cons show ?thesis by simp
  next
    case (Cons b p2)
    with \<open>pre = a # p1\<close> show ?thesis by (cases p2) simp_all
  qed
qed

lemma indexOf_before_stars:
  "indexOf ''@js'' (pre @ CHR ''*'' # rest) =
     (case indexOf ''@js'' pre of
        Some i \<Rightarrow> Some i
      | None \<Rightarrow> map_option (\<lambda>i. length pre + i) (indexOf ''@js'' (CHR ''*'' # rest)))"
proof (induction pre)
  case Nil
  then show ?case by (cases "indexOf ''@js'' rest") simp_all
next
  case (Cons c pre)
  have "prefix ''@js'' ((c # pre) @ CHR ''*'' # rest) \<longleftrightarrow> prefix ''@js'' (c # pre)"
    by (rule prefix_atjs_star)
  with Cons show ?case
    by (auto simp: option.map_comp comp_def split: option.splits)
qed

lemma loop_after_passing:
  "selector_cursor h rule sel cursor pre = Some cursor' \<Longrightarrow>
   (\<And>cu. compileSelector_loop h rule sel cu cursor' rest = Inl e) \<Longrightarrow>
   compileSelector_loop h rule sel cu0 cursor (pre @ rest) = Inl e"
proof (induction pre arbitrary: cursor cu0)
  case Nil
  then show ?case by simp
next
  case (Cons c pre)
  let ?start = "indexOf_from sel c cursor"
  from Cons.prems(1) have next_cursor: "selector_cursor h rule sel (?start + int (length c)) pre = Some cursor'"
    by (simp add: Let_def split: if_splits)
  have ih: "\<And>cu. compileSelector_loop h rule sel cu (?start + int (length c)) (pre @ rest) = Inl e"
    using Cons.IH[OF next_cursor Cons.prems(2)] by simp
  show ?case
  proof (cases "startsWith c '':@js('' \<and> endsWith c '')''")
    case True
    with Cons.prems(1) obtain uc where
      "userCode (js h) (node_source rule) (?start + 5) (slice c 5 (int (length c) - 1)) [] = Inr uc"
      by (cases "userCode (js h) (node_source rule) (?start + 5) (slice c 5 (int (length c) - 1)) []") (auto simp: Let_def split: if_splits)
    with True ih show ?thesis by (simp add: Let_def)
  next
    case False
    with Cons.prems(1) have "indexOf ''@js'' (mask_strings c) = None"
      by (simp add: Let_def split: if_splits)
    with False ih show ?thesis by (auto simp add: Let_def checkInvalidAtJs_def)
  qed
qed

lemma loop_invalid:
  "\<not> (startsWith c '':@js('' \<and> endsWith c '')'') \<Longrightarrow> indexOf ''@js'' (mask_strings c) = Some i \<Longrightarrow>
   compileSelector_loop h rule sel cu cursor (c # rest) =
     Inl (cssSyntaxError ''invalid use of @js'' (node_source rule) (indexOf_from sel c cursor + int i))"
  by (auto simp add: Let_def checkInvalidAtJs_def)

lemma indexOf_Some:
  "indexOf pat t = Some i \<Longrightarrow>
   i + length pat \<le> length t \<and> take (length pat) (drop i t) = pat \<and> (\<forall>j<i. \<not> prefix pat (drop j t))"
proof (induction t arbitrary: i)
  case Nil
  then show ?case by (simp split: if_splits)
next
  case (Cons c cs)
  show ?case
  proof (cases "prefix pat (c # cs)")
    case True
    with Cons.prems have i: "i = 0" by simp
    from True obtain zs where zs: "c # cs = pat @ zs" by (auto simp: prefix_def)
    then have "length (c # cs) = length pat + length zs" by simp
    with i zs show ?thesis by auto
  next
    case False
    with Cons.prems obtain k where k: "indexOf pat cs = Some k" "i = Suc k" by auto
    from Cons.IH[OF k(1)] False k(2) show ?thesis
      by (auto simp: less_Suc_eq_0_disj)
  qed
qed

lemma masked_occurrence:
  assumes "indexOf ''@js'' (mask_strings t) = Some i"
  shows "i + 3 \<le> length t \<and> take 3 (drop i t) = ''@js''"
proof -
  let ?m = "mask_strings t"
  from indexOf_Some[OF assms] have len: "i + 3 \<le> length ?m" and occ: "take 3 (drop i ?m) = ''@js''"
    by (simp_all add: numeral_3_eq_3)
  have lm: "length ?m = length t" by (simp add: mask_strings_def length_mask_from)
  have nth: "\<And>k. k < 3 \<Longrightarrow> ?m ! (i + k) = ''@js'' ! k"
  proof -
    fix k :: nat assume "k < 3"
    then have "take 3 (drop i ?m) ! k = ?m ! (i + k)" using len by simp
    with occ show "?m ! (i + k) = ''@js'' ! k" by simp
  qed
  have same: "\<And>k. k < 3 \<Longrightarrow> t ! (i + k) = ''@js'' ! k"
  proof -
    fix k :: nat assume k: "k < 3"
    then have "i + k < length t" using len lm by simp
    from mask_from_nth[OF this, of False] have "?m ! (i + k) = t ! (i + k) \<or> ?m ! (i + k) = CHR ''*''"
      by (simp add: mask_strings_def)
    moreover have "''@js'' ! k \<noteq> CHR ''*''" using k by (auto simp: less_Suc_eq numeral_3_eq_3)
    ultimately show "t ! (i + k) = ''@js'' ! k" using nth[OF k] by auto
  qed
  have "take 3 (drop i t) = ''@js''"
  proof (rule nth_equalityI)
    show "length (take 3 (drop i t)) = length ''@js''" using len lm by simp
  next
    fix k assume "k < length (take 3 (drop i t))"
    then have k: "k < 3" by simp
    then show "take 3 (drop i t) ! k = ''@js'' ! k" using same[OF k] len lm by simp
  qed
  with len lm show ?thesis by simp
qed

text \<open>
  What the mask does to a quoted literal: when the text before the opening quote has no
  quote and does not end with a backslash, and no backslash of the body stands before a
  line terminator, the literal is replaced by stars, quotes included, and the search for
  the marker goes on in the text before it and in the masked text after it.
\<close>

lemma quoted_literal_is_masked:
  assumes q: "q = squote \<or> q = dquote"
    and body: "str_body q body"
    and pre: "\<forall>c \<in> set pre. c \<noteq> squote \<and> c \<noteq> dquote"
    and bs: "pre = [] \<or> last pre \<noteq> backslash"
  shows "mask_strings (pre @ q # body @ q # post)
      = pre @ replicate (length body + 2) (CHR ''*'') @ mask_strings post"
    and "checkInvalidAtJs (pre @ q # body @ q # post) s offset =
      (case indexOf ''@js'' pre of
         Some i \<Rightarrow> Inl (cssSyntaxError ''invalid use of @js'' s (offset + int i))
       | None \<Rightarrow>
           (case indexOf ''@js'' (mask_strings post) of
              Some j \<Rightarrow> Inl (cssSyntaxError ''invalid use of @js'' s
                          (offset + int (length pre + (length body + 2) + j)))
            | None \<Rightarrow> Inr ()))"
proof -
  have qb: "q \<noteq> backslash" using q by (auto simp add: squote_def dquote_def backslash_def)
  have m: "match_body q (body @ q # post) = Some (Suc (length body))"
    by (rule match_body_literal[OF body qb])
  have flag: "(if pre = [] then False else last pre = backslash) = False" using bs by auto
  have "mask_from False (pre @ q # body @ q # post) = pre @ mask_from False (q # body @ q # post)"
    using mask_from_plain[OF pre, of False "q # body @ q # post"] flag by simp
  also have "mask_from False (q # body @ q # post)
      = replicate (length body + 2) (CHR ''*'') @ mask_from False post"
    using q m by auto
  finally show masked: "mask_strings (pre @ q # body @ q # post)
      = pre @ replicate (length body + 2) (CHR ''*'') @ mask_strings post"
    by (simp add: mask_strings_def)
  have split: "pre @ replicate (length body + 2) (CHR ''*'') @ mask_strings post
      = pre @ CHR ''*'' # (replicate (Suc (length body)) (CHR ''*'') @ mask_strings post)"
    by simp
  have stars: "indexOf ''@js'' (CHR ''*'' # (replicate (Suc (length body)) (CHR ''*'') @ mask_strings post))
      = map_option (\<lambda>i. length body + 2 + i) (indexOf ''@js'' (mask_strings post))"
    using indexOf_stars[of "length body + 2" "mask_strings post"] by simp
  show "checkInvalidAtJs (pre @ q # body @ q # post) s offset =
      (case indexOf ''@js'' pre of
         Some i \<Rightarrow> Inl (cssSyntaxError ''invalid use of @js'' s (offset + int i))
       | None \<Rightarrow>
           (case indexOf ''@js'' (mask_strings post) of
              Some j \<Rightarrow> Inl (cssSyntaxError ''invalid use of @js'' s
                          (offset + int (length pre + (length body + 2) + j)))
            | None \<Rightarrow> Inr ()))"
    unfolding checkInvalidAtJs_def masked split indexOf_before_stars stars
    by (simp split: option.splits)
qed

text \<open>
  Claim C8, as amended.  A marker that the mask leaves in the property name of a
  declaration, in a declaration value that does not begin with the marker, in the params
  of an at-rule other than \<^verbatim>\<open>@js\<close>, or in a component of a selector that is not of the
  form \<^verbatim>\<open>:@js(...)\<close> (the components before it raising no error) stops the compilation
  of the node with the error \<^verbatim>\<open>invalid use of @js\<close>.  The error is placed at the offset
  of the text in the node plus the index \<open>i\<close> of the first marker in the masked text, and
  the marker stands at that index of the text itself.
\<close>

theorem invalid_use_of_atjs:
  "(indexOf ''@js'' (mask_strings p) = Some i \<longrightarrow>
      compileNode h cx (Decl s r p v) st =
        (Inl (cssSyntaxError ''invalid use of @js'' s (int i)), st))
   \<and> (indexOf ''@js'' (mask_strings p) = None \<and> exec_value_marker v = None
        \<and> indexOf ''@js'' (mask_strings v) = Some i \<longrightarrow>
      compileNode h cx (Decl s r p v) st =
        (Inl (cssSyntaxError ''invalid use of @js'' s (int (valueOffset (Decl s r p v)) + int i)), st))
   \<and> (name \<noteq> ''js'' \<and> indexOf ''@js'' (mask_strings params) = Some i \<longrightarrow>
      compileNode h cx (AtRule s r name params nodes) st =
        (Inl (cssSyntaxError ''invalid use of @js'' s
               (int (paramsOffset (AtRule s r name params nodes)) + int i)), st))
   \<and> (indexOf ''@js'' sel \<noteq> None \<and> selectors h sel = pre @ c # rest
        \<and> selector_cursor h (Rule s r sel kids) sel 0 pre = Some cursor
        \<and> \<not> (startsWith c '':@js('' \<and> endsWith c '')'')
        \<and> indexOf ''@js'' (mask_strings c) = Some i \<longrightarrow>
      compileNode h cx (Rule s r sel kids) st =
        (Inl (cssSyntaxError ''invalid use of @js'' s (indexOf_from sel c cursor + int i)), st))
   \<and> (indexOf ''@js'' (mask_strings t) = Some i \<longrightarrow>
        i + 3 \<le> length t \<and> take 3 (drop i t) = ''@js'')"
proof (intro conjI impI)
  assume "indexOf ''@js'' (mask_strings p) = Some i"
  then show "compileNode h cx (Decl s r p v) st =
      (Inl (cssSyntaxError ''invalid use of @js'' s (int i)), st)"
    by (simp add: checkInvalidAtJs_def)
next
  assume "indexOf ''@js'' (mask_strings p) = None \<and> exec_value_marker v = None
        \<and> indexOf ''@js'' (mask_strings v) = Some i"
  then show "compileNode h cx (Decl s r p v) st =
      (Inl (cssSyntaxError ''invalid use of @js'' s (int (valueOffset (Decl s r p v)) + int i)), st)"
    by (simp add: checkInvalidAtJs_def)
next
  assume "name \<noteq> ''js'' \<and> indexOf ''@js'' (mask_strings params) = Some i"
  then show "compileNode h cx (AtRule s r name params nodes) st =
      (Inl (cssSyntaxError ''invalid use of @js'' s
             (int (paramsOffset (AtRule s r name params nodes)) + int i)), st)"
    by (simp add: checkInvalidAtJs_def)
next
  assume a: "indexOf ''@js'' sel \<noteq> None \<and> selectors h sel = pre @ c # rest
        \<and> selector_cursor h (Rule s r sel kids) sel 0 pre = Some cursor
        \<and> \<not> (startsWith c '':@js('' \<and> endsWith c '')'')
        \<and> indexOf ''@js'' (mask_strings c) = Some i"
  let ?e = "cssSyntaxError ''invalid use of @js'' s (indexOf_from sel c cursor + int i)"
  have "\<And>cu. compileSelector_loop h (Rule s r sel kids) sel cu cursor (c # rest) = Inl ?e"
    using a loop_invalid[of c i h "Rule s r sel kids" sel _ cursor rest] by simp
  with a have "compileSelector_loop h (Rule s r sel kids) sel 0 0 (pre @ c # rest) = Inl ?e"
    using loop_after_passing[of h "Rule s r sel kids" sel 0 pre cursor "c # rest" ?e 0] by blast
  with a show "compileNode h cx (Rule s r sel kids) st = (Inl ?e, st)"
    by auto
next
  assume "indexOf ''@js'' (mask_strings t) = Some i"
  then show "i + 3 \<le> length t" "take 3 (drop i t) = ''@js''"
    using masked_occurrence by blast+
qed

text \<open>
  The theorem at four nodes of \<^verbatim>\<open>1.css\<close>: the property \<^verbatim>\<open>@js-x\<close>, the value
  \<^verbatim>\<open>red @js(1)\<close> of \<^verbatim>\<open>color\<close> (offset 7 + 4), the params \<^verbatim>\<open>(@js)\<close> of \<^verbatim>\<open>@media\<close>
  (offset 7 + 1) and the selector \<^verbatim>\<open>h1:@js(1)\<close>.
\<close>

theorem invalid_use_of_atjs_witness:
  "compileNode sample_compiler sample_context
     (Decl (Some sample_source) empty_raws ''@js-x'' ''1'') sample_cstate
     = (Inl (CssSyntaxError ''invalid use of @js'' (Some ''1.css'') (Some 0)), sample_cstate)
   \<and> compileNode sample_compiler sample_context
     (Decl (Some sample_source) empty_raws ''color'' ''red @js(1)'') sample_cstate
     = (Inl (CssSyntaxError ''invalid use of @js'' (Some ''1.css'') (Some 11)), sample_cstate)
   \<and> compileNode sample_compiler sample_context
     (AtRule (Some sample_source) empty_raws ''media'' ''(@js)'' None) sample_cstate
     = (Inl (CssSyntaxError ''invalid use of @js'' (Some ''1.css'') (Some 8)), sample_cstate)
   \<and> compileNode sample_compiler sample_context
     (Rule (Some sample_source) empty_raws ''h1:@js(1)'' []) sample_cstate
     = (Inl (CssSyntaxError ''invalid use of @js'' (Some ''1.css'') (Some 3)), sample_cstate)
   \<and> take 3 (drop 4 ''red @js(1)'') = ''@js''"
proof -
  note inst = invalid_use_of_atjs[where h = sample_compiler and cx = sample_context
      and st = sample_cstate and s = "Some sample_source" and r = empty_raws]
  have h1: "indexOf ''@js'' (mask_strings ''@js-x'') = Some 0" by code_simp
  have h2: "indexOf ''@js'' (mask_strings ''color'') = None \<and> exec_value_marker ''red @js(1)'' = None
        \<and> indexOf ''@js'' (mask_strings ''red @js(1)'') = Some 4" by code_simp
  have h3: "''media'' \<noteq> ''js'' \<and> indexOf ''@js'' (mask_strings ''(@js)'') = Some 1" by code_simp
  have h4: "indexOf ''@js'' ''h1:@js(1)'' \<noteq> None \<and> selectors sample_compiler ''h1:@js(1)'' = [] @ ''h1:@js(1)'' # []
        \<and> selector_cursor sample_compiler (Rule (Some sample_source) empty_raws ''h1:@js(1)'' []) ''h1:@js(1)'' 0 [] = Some 0
        \<and> \<not> (startsWith ''h1:@js(1)'' '':@js('' \<and> endsWith ''h1:@js(1)'' '')'')
        \<and> indexOf ''@js'' (mask_strings ''h1:@js(1)'') = Some 3" by code_simp
  have c1: "compileNode sample_compiler sample_context
     (Decl (Some sample_source) empty_raws ''@js-x'' ''1'') sample_cstate
     = (Inl (cssSyntaxError ''invalid use of @js'' (Some sample_source) (int 0)), sample_cstate)"
    using inst[where p = "''@js-x''" and i = 0 and v = "''1''"] h1 by blast
  have c2: "compileNode sample_compiler sample_context
     (Decl (Some sample_source) empty_raws ''color'' ''red @js(1)'') sample_cstate
     = (Inl (cssSyntaxError ''invalid use of @js'' (Some sample_source)
          (int (valueOffset (Decl (Some sample_source) empty_raws ''color'' ''red @js(1)'')) + int 4)), sample_cstate)"
    using inst[where p = "''color''" and i = 4 and v = "''red @js(1)''"] h2 by blast
  have c3: "compileNode sample_compiler sample_context
     (AtRule (Some sample_source) empty_raws ''media'' ''(@js)'' None) sample_cstate
     = (Inl (cssSyntaxError ''invalid use of @js'' (Some sample_source)
          (int (paramsOffset (AtRule (Some sample_source) empty_raws ''media'' ''(@js)'' None)) + int 1)), sample_cstate)"
    using inst[where name = "''media''" and params = "''(@js)''" and i = 1 and nodes = None] h3 by blast
  have c4: "compileNode sample_compiler sample_context
     (Rule (Some sample_source) empty_raws ''h1:@js(1)'' []) sample_cstate
     = (Inl (cssSyntaxError ''invalid use of @js'' (Some sample_source)
          (indexOf_from ''h1:@js(1)'' ''h1:@js(1)'' 0 + int 3)), sample_cstate)"
    using inst[where sel = "''h1:@js(1)''" and pre = "[]" and c = "''h1:@js(1)''" and rest = "[]"
        and kids = "[]" and cursor = 0 and i = 3] h4 by blast
  have c5: "take 3 (drop 4 ''red @js(1)'') = ''@js''"
    using inst[where t = "''red @js(1)''" and i = 4] h2 by blast
  have e1: "cssSyntaxError ''invalid use of @js'' (Some sample_source) (int 0)
      = CssSyntaxError ''invalid use of @js'' (Some ''1.css'') (Some 0)" by code_simp
  have e2: "cssSyntaxError ''invalid use of @js'' (Some sample_source)
          (int (valueOffset (Decl (Some sample_source) empty_raws ''color'' ''red @js(1)'')) + int 4)
      = CssSyntaxError ''invalid use of @js'' (Some ''1.css'') (Some 11)" by code_simp
  have e3: "cssSyntaxError ''invalid use of @js'' (Some sample_source)
          (int (paramsOffset (AtRule (Some sample_source) empty_raws ''media'' ''(@js)'' None)) + int 1)
      = CssSyntaxError ''invalid use of @js'' (Some ''1.css'') (Some 8)" by code_simp
  have e4: "cssSyntaxError ''invalid use of @js'' (Some sample_source)
          (indexOf_from ''h1:@js(1)'' ''h1:@js(1)'' 0 + int 3)
      = CssSyntaxError ''invalid use of @js'' (Some ''1.css'') (Some 3)" by code_simp
  show ?thesis using c1 c2 c3 c4 c5 unfolding e1 e2 e3 e4 by blast
qed

text \<open>
  Claim C8 as stated fails: the value of the declaration \<^verbatim>\<open>content: "@js"\<close> does not
  begin with the marker and contains it, and the declaration is compiled without error
  (it is passed on as it is).
\<close>

theorem quoted_marker_is_no_error:
  "compileNode sample_compiler sample_context
     (Decl (Some sample_source) empty_raws ''content'' ([dquote] @ ''@js'' @ [dquote])) sample_cstate
   = (Inr (Child (Decl (Some sample_source) empty_raws ''content'' ([dquote] @ ''@js'' @ [dquote]))),
      sample_cstate)"
  by code_simp

text \<open>
  Claim C10 at the declaration whose value is a double quote, a backslash, a line feed,
  \<^verbatim>\<open>@js\<close> and a double quote: a complete string with a line continuation.  The pattern
  \<^verbatim>\<open>\\.\<close> does not match the backslash before the line feed, the string is not masked and
  the marker inside it is reported (at offset 9 + 3).  With the letter \<^verbatim>\<open>n\<close> in place
  of the line feed the string is masked and there is no error.
\<close>

theorem marker_after_line_continuation:
  "compileNode sample_compiler sample_context
     (Decl (Some sample_source) empty_raws ''content''
        ([dquote, backslash, newline] @ ''@js'' @ [dquote])) sample_cstate
   = (Inl (CssSyntaxError ''invalid use of @js'' (Some ''1.css'') (Some 12)), sample_cstate)
   \<and> compileNode sample_compiler sample_context
     (Decl (Some sample_source) empty_raws ''content''
        ([dquote, backslash, CHR ''n''] @ ''@js'' @ [dquote])) sample_cstate
   = (Inr (Child (Decl (Some sample_source) empty_raws ''content''
        ([dquote, backslash, CHR ''n''] @ ''@js'' @ [dquote]))), sample_cstate)"
  by code_simp

section \<open>Offsets of the source map\<close>

lemma walk_loc_chain:
  "walk_loc l offset inc = (loc_end l, offset + loc_sum l, if loc_null l then 0 else inc)"
  by (induction l offset inc rule: walk_loc.induct) auto

lemma computeLoc_chain:
  "loc_end tag = LSource src \<Longrightarrow>
   computeLoc (LTagged tag OffAbsent) frm =
     \<lparr>cl_source = Some src, cl_offset = loc_sum tag, cl_inc = (if loc_null tag then 0 else 1)\<rparr>"
  by (simp add: computeLoc_def walk_loc_chain)

lemma computeLoc_relative:
  "computeLoc (LTagged LRelative OffAbsent) (loc_of_computed cl d) =
     \<lparr>cl_source = cl_source cl, cl_offset = cl_offset cl + d, cl_inc = 0\<rparr>"
  by (cases "cl_source cl") (simp_all add: computeLoc_def computeLoc_base_def loc_of_computed_def)

lemma force_fixed:
  "relative_only c \<Longrightarrow> fixed_frame src off fr st \<Longrightarrow>
   force_code fr c st = st\<lparr>sm_entries := sm_entries st @ replicate (length (code_text c)) (Some (src, off))\<rparr>"
  "list_all relative_only cs \<Longrightarrow> fixed_frame src off fr st \<Longrightarrow>
   force_items fr cs st = st\<lparr>sm_entries := sm_entries st @ replicate (length (concat (map code_text cs))) (Some (src, off))\<rparr>"
proof (induction fr c st and fr cs st rule: force_code_force_items.induct)
  case (1 fr s st)
  then show ?case
    by (simp add: sm_translate_def fixed_frame_def map_replicate_const)
next
  case (2 fr items tag st)
  from 2(2) have tag: "tag = LRelative" and items: "list_all relative_only items" by simp_all
  have "fixed_frame src off (sm_begin tag fr st) st"
    using 2(3) tag by (simp add: fixed_frame_def sm_begin_def computeLoc_relative)
  from 2(1)[OF items this] show ?case by simp
next
  case (3 fr st)
  then show ?case by simp
next
  case (4 fr c cs st)
  from 4(3) have c: "relative_only c" and cs: "list_all relative_only cs" by simp_all
  let ?st1 = "force_code fr c st"
  have st1: "?st1 = st\<lparr>sm_entries := sm_entries st @ replicate (length (code_text c)) (Some (src, off))\<rparr>"
    by (rule 4(1)[OF c 4(4)])
  have "fixed_frame src off fr ?st1" using 4(4) st1 by (simp add: fixed_frame_def)
  from 4(2)[OF cs this] st1 show ?case by (simp add: replicate_add)
qed

lemma upt_shift: "[n..<n + m] = map (\<lambda>i. i + n) [0..<m]"
  by (simp add: map_add_upt add.commute)

lemma map_shift:
  "map (\<lambda>k. f (b + int n + int k)) [0..<m] = map (\<lambda>k. f (b + int k)) [n..<n + m]"
  unfolding upt_shift by (simp add: o_def ac_simps)


lemma force_strings:
  "cl_source (fr_loc fr) = Some src \<Longrightarrow> cl_inc (fr_loc fr) = 1 \<Longrightarrow>
   force_items fr (map Str ss) st =
     \<lparr>sm_cursor = sm_cursor st + int (length (concat ss)),
      sm_entries = sm_entries st @
        map (\<lambda>k. Some (src, cl_offset (fr_loc fr) + (sm_cursor st - fr_start fr) + int k))
          [0..<length (concat ss)]\<rparr>"
proof (induction ss arbitrary: st)
  case Nil
  then show ?case by simp
next
  case (Cons s ss)
  let ?b = "cl_offset (fr_loc fr) + (sm_cursor st - fr_start fr)"
  let ?f = "\<lambda>z. Some (src, z)"
  let ?st1 = "\<lparr>sm_cursor = sm_cursor st + int (length s),
      sm_entries = sm_entries st @ map (\<lambda>k. ?f (?b + int k)) [0..<length s]\<rparr>"
  have st1: "sm_translate fr s st = ?st1"
    using Cons.prems by (simp add: sm_translate_def)
  have b1: "cl_offset (fr_loc fr) + (sm_cursor ?st1 - fr_start fr) = ?b + int (length s)"
    by simp
  have "force_items fr (map Str (s # ss)) st = force_items fr (map Str ss) ?st1"
    by (simp add: st1)
  also have "\<dots> = \<lparr>sm_cursor = sm_cursor ?st1 + int (length (concat ss)),
      sm_entries = sm_entries ?st1 @
        map (\<lambda>k. ?f (cl_offset (fr_loc fr) + (sm_cursor ?st1 - fr_start fr) + int k))
          [0..<length (concat ss)]\<rparr>"
    by (rule Cons.IH[OF Cons.prems])
  also have "\<dots> = \<lparr>sm_cursor = sm_cursor st + int (length (concat (s # ss))),
      sm_entries = sm_entries st @ (map (\<lambda>k. ?f (?b + int k)) [0..<length s]
         @ map (\<lambda>k. ?f (?b + int (length s) + int k)) [0..<length (concat ss)])\<rparr>"
    unfolding b1 by simp
  also have "map (\<lambda>k. ?f (?b + int (length s) + int k)) [0..<length (concat ss)]
      = map (\<lambda>k. ?f (?b + int k)) [length s..<length s + length (concat ss)]"
    by (rule map_shift)
  also have "map (\<lambda>k. ?f (?b + int k)) [0..<length s]
         @ map (\<lambda>k. ?f (?b + int k)) [length s..<length s + length (concat ss)]
      = map (\<lambda>k. ?f (?b + int k)) [0..<length (concat (s # ss))]"
    by (simp add: upt_add_eq_append[of 0 "length s" "length (concat ss)"])
  finally show ?case .
qed

lemma loc_end_cases:
  "(\<exists>s. loc_end tag = LSource s) \<or> loc_end tag = LRelative \<or> loc_end tag = LUndefined"
  by (induction tag) auto

lemma computeLoc_relative_chain:
  "loc_end tag = LRelative \<Longrightarrow>
   computeLoc (LTagged tag OffAbsent) (loc_of_computed cl d) =
     \<lparr>cl_source = cl_source cl, cl_offset = cl_offset cl + d + loc_sum tag, cl_inc = 0\<rparr>"
  by (cases "cl_source cl") (simp_all add: computeLoc_def computeLoc_base_def loc_of_computed_def walk_loc_chain)

lemma computeLoc_undefined_chain:
  "loc_end tag = LUndefined \<Longrightarrow>
   computeLoc (LTagged tag OffAbsent) frm =
     \<lparr>cl_source = None, cl_offset = loc_sum tag, cl_inc = (if loc_null tag then 0 else 1)\<rparr>"
  by (simp add: computeLoc_def walk_loc_chain)

lemma force_is_char_offsets:
  "cl_inc (fr_loc fr) \<le> 1 \<Longrightarrow>
   force_code fr c st =
     \<lparr>sm_cursor = sm_cursor st + int (counted (frame_counts fr) c),
      sm_entries = sm_entries st @
        char_offsets (cl_source (fr_loc fr)) (cl_offset (fr_loc fr)) (frame_counts fr)
          (sm_cursor st - fr_start fr) c\<rparr>"
  "cl_inc (fr_loc fr) \<le> 1 \<Longrightarrow>
   force_items fr cs st =
     \<lparr>sm_cursor = sm_cursor st + int (sum_list (map (counted (frame_counts fr)) cs)),
      sm_entries = sm_entries st @
        item_offsets (cl_source (fr_loc fr)) (cl_offset (fr_loc fr)) (frame_counts fr)
          (sm_cursor st - fr_start fr) cs\<rparr>"
proof (induction fr c st and fr cs st rule: force_code_force_items.induct)
  case (1 fr s st)
  then have inc: "cl_inc (fr_loc fr) = 0 \<or> cl_inc (fr_loc fr) = 1" by auto
  show ?case
  proof (cases "cl_source (fr_loc fr)")
    case None
    then show ?thesis by (simp add: sm_translate_def frame_counts_def)
  next
    case (Some \<sigma>)
    with inc show ?thesis by (auto simp add: sm_translate_def frame_counts_def)
  qed
next
  case (2 fr items tag st)
  let ?F = "sm_begin tag fr st"
  have start: "fr_start ?F = sm_cursor st" by (simp add: sm_begin_def)
  from loc_end_cases[of tag] show ?case
  proof (elim disjE exE)
    fix \<sigma> assume e: "loc_end tag = LSource \<sigma>"
    then have F: "fr_loc ?F = \<lparr>cl_source = Some \<sigma>, cl_offset = loc_sum tag,
        cl_inc = (if loc_null tag then 0 else 1)\<rparr>"
      by (simp add: sm_begin_def computeLoc_chain)
    then have p: "cl_inc (fr_loc ?F) \<le> 1" and fc: "frame_counts ?F = (\<not> loc_null tag)"
      by (simp_all add: frame_counts_def)
    show ?thesis using "2.IH"[OF p] e F fc start by simp
  next
    assume e: "loc_end tag = LRelative"
    then have F: "fr_loc ?F = \<lparr>cl_source = cl_source (fr_loc fr),
        cl_offset = cl_offset (fr_loc fr) + (sm_cursor st - fr_start fr) + loc_sum tag, cl_inc = 0\<rparr>"
      by (simp add: sm_begin_def computeLoc_relative_chain)
    then have p: "cl_inc (fr_loc ?F) \<le> 1" and fc: "frame_counts ?F = False"
      by (simp_all add: frame_counts_def)
    show ?thesis using "2.IH"[OF p] e F fc start by simp
  next
    assume e: "loc_end tag = LUndefined"
    then have F: "fr_loc ?F = \<lparr>cl_source = None, cl_offset = loc_sum tag,
        cl_inc = (if loc_null tag then 0 else 1)\<rparr>"
      by (simp add: sm_begin_def computeLoc_undefined_chain)
    then have p: "cl_inc (fr_loc ?F) \<le> 1" and fc: "frame_counts ?F = False"
      by (simp_all add: frame_counts_def)
    show ?thesis using "2.IH"[OF p] e F fc start by simp
  qed
next
  case (3 fr st)
  then show ?case by simp
next
  case (4 fr c cs st)
  show ?case using "4.IH"(1)[OF "4.prems"] "4.IH"(2)[OF "4.prems"] by (simp add: algebra_simps)
qed

lemma force_char_offsets: "force c = char_offsets None 0 False 0 c"
proof -
  let ?fr = "\<lparr>fr_loc = computeLoc LUndefined LUndefined, fr_start = 0\<rparr>"
  have loc: "computeLoc LUndefined LUndefined = \<lparr>cl_source = None, cl_offset = 0, cl_inc = 1\<rparr>"
    by (simp add: computeLoc_def)
  have "cl_inc (fr_loc ?fr) \<le> 1" by (simp add: loc)
  from force_is_char_offsets(1)[OF this, of c "\<lparr>sm_cursor = 0, sm_entries = []\<rparr>"]
  show ?thesis by (simp add: force_def loc frame_counts_def)
qed

text \<open>
  Claim C9, as amended.  The positions that \<^verbatim>\<open>SourceMap.force\<close> gives to the characters of
  a code are those of the rule \<open>char_offsets\<close>: they are fixed node by node, by the tag
  chain of the code in which a string stands, and the codes around it add nothing to the
  base of a code whose chain ends in a source.  In particular: when the chain of a code
  ends in a source and has a \<^verbatim>\<open>null\<close> offset, and all codes nested in it are tagged
  \<^verbatim>\<open>'relative'\<close>, every character of the code maps to the sum of the offsets of the chain,
  wherever the code stands and whatever the cursor is; when the chain ends in a source
  and has no \<^verbatim>\<open>null\<close> offset and the code is made of strings, the character \<open>k\<close> of its
  text maps to that sum plus \<open>k\<close>, and the cursor advances by the length of the text.
\<close>

theorem provenance_offsets:
  "force c = char_offsets None 0 False 0 c
   \<and> (loc_end tag = LSource src \<and> loc_null tag \<and> list_all relative_only items \<longrightarrow>
      force_code fr (Code items tag) st =
        st\<lparr>sm_entries := sm_entries st @
             replicate (length (code_text (Code items tag))) (Some (src, loc_sum tag))\<rparr>)
   \<and> (loc_end tag = LSource src \<and> \<not> loc_null tag \<longrightarrow>
      force_code fr (Code (map Str ss) tag) st =
        \<lparr>sm_cursor = sm_cursor st + int (length (concat ss)),
         sm_entries = sm_entries st @
           map (\<lambda>k. Some (src, loc_sum tag + int k)) [0..<length (concat ss)]\<rparr>)"
proof (intro conjI impI)
  show "force c = char_offsets None 0 False 0 c" by (rule force_char_offsets)
next
  assume a: "loc_end tag = LSource src \<and> loc_null tag \<and> list_all relative_only items"
  then have "fixed_frame src (loc_sum tag) (sm_begin tag fr st) st"
    by (simp add: fixed_frame_def sm_begin_def computeLoc_chain)
  from force_fixed(2)[OF _ this, of items] a
  show "force_code fr (Code items tag) st =
        st\<lparr>sm_entries := sm_entries st @
             replicate (length (code_text (Code items tag))) (Some (src, loc_sum tag))\<rparr>"
    by simp
next
  assume a: "loc_end tag = LSource src \<and> \<not> loc_null tag"
  let ?fr = "sm_begin tag fr st"
  from a have fr: "cl_source (fr_loc ?fr) = Some src" "cl_inc (fr_loc ?fr) = 1"
      "cl_offset (fr_loc ?fr) = loc_sum tag" "fr_start ?fr = sm_cursor st"
    by (simp_all add: sm_begin_def computeLoc_chain)
  from force_strings[OF fr(1) fr(2), of ss st] fr(3) fr(4)
  show "force_code fr (Code (map Str ss) tag) st =
        \<lparr>sm_cursor = sm_cursor st + int (length (concat ss)),
         sm_entries = sm_entries st @
           map (\<lambda>k. Some (src, loc_sum tag + int k)) [0..<length (concat ss)]\<rparr>"
    by simp
qed

text \<open>
  The theorem at two codes whose tag is a chain of two offsets, 5 and \<^verbatim>\<open>null\<close>, 5 and 2,
  and at a code with offset 0 that has a code tagged \<^verbatim>\<open>'relative'\<close> between two strings:
  the two characters of the nested code map to the distance 2 where it begins, and do
  not move the cursor.
\<close>

theorem provenance_offsets_witness:
  "force (Code [Str ''ab'', Code [Str ''c''] LRelative]
       (LTagged (LTagged (LSource sample_source) (Off 5)) OffNull))
     = [Some (sample_source, 5), Some (sample_source, 5), Some (sample_source, 5)]
   \<and> force (Code (map Str [''ab'', ''c'']) (LTagged (LTagged (LSource sample_source) (Off 5)) (Off 2)))
     = [Some (sample_source, 7), Some (sample_source, 8), Some (sample_source, 9)]
   \<and> force (Code [Str ''ab'', Code [Str ''cd''] LRelative, Str ''ef''] (LTagged (LSource sample_source) (Off 0)))
     = [Some (sample_source, 0), Some (sample_source, 1), Some (sample_source, 2),
        Some (sample_source, 2), Some (sample_source, 2), Some (sample_source, 3)]"
proof -
  let ?fr = "\<lparr>fr_loc = computeLoc LUndefined LUndefined, fr_start = 0\<rparr>"
  let ?st = "\<lparr>sm_cursor = 0, sm_entries = []\<rparr>"
  let ?t1 = "LTagged (LTagged (LSource sample_source) (Off 5)) OffNull"
  let ?t2 = "LTagged (LTagged (LSource sample_source) (Off 5)) (Off 2)"
  let ?c3 = "Code [Str ''ab'', Code [Str ''cd''] LRelative, Str ''ef''] (LTagged (LSource sample_source) (Off 0))"
  have h1: "loc_end ?t1 = LSource sample_source \<and> loc_null ?t1
      \<and> list_all relative_only [Str ''ab'', Code [Str ''c''] LRelative]" by simp
  have h2: "loc_end ?t2 = LSource sample_source \<and> \<not> loc_null ?t2" by simp
  have c1: "force_code ?fr (Code [Str ''ab'', Code [Str ''c''] LRelative] ?t1) ?st =
      ?st\<lparr>sm_entries := sm_entries ?st @
         replicate (length (code_text (Code [Str ''ab'', Code [Str ''c''] LRelative] ?t1)))
           (Some (sample_source, loc_sum ?t1))\<rparr>"
    using provenance_offsets[where tag = ?t1 and src = sample_source
        and items = "[Str ''ab'', Code [Str ''c''] LRelative]" and fr = ?fr and st = ?st] h1 by blast
  have c2: "force_code ?fr (Code (map Str [''ab'', ''c'']) ?t2) ?st =
        \<lparr>sm_cursor = sm_cursor ?st + int (length (concat [''ab'', ''c''])),
         sm_entries = sm_entries ?st @
           map (\<lambda>k. Some (sample_source, loc_sum ?t2 + int k)) [0..<length (concat [''ab'', ''c''])]\<rparr>"
    using provenance_offsets[where tag = ?t2 and src = sample_source
        and ss = "[''ab'', ''c'']" and fr = ?fr and st = ?st] h2 by blast
  have "force ?c3 = char_offsets None 0 False 0 ?c3"
    using provenance_offsets[where c = ?c3] by blast
  also have "\<dots> = [Some (sample_source, 0), Some (sample_source, 1), Some (sample_source, 2),
        Some (sample_source, 2), Some (sample_source, 2), Some (sample_source, 3)]"
    by code_simp
  finally have c3: "force ?c3 = [Some (sample_source, 0), Some (sample_source, 1), Some (sample_source, 2),
        Some (sample_source, 2), Some (sample_source, 2), Some (sample_source, 3)]" .
  have u: "[0..<3] = [0, 1, 2]" by (simp add: upt_rec)
  have a: "force (Code [Str ''ab'', Code [Str ''c''] LRelative] ?t1)
     = [Some (sample_source, 5), Some (sample_source, 5), Some (sample_source, 5)]"
    unfolding force_def c1 by (simp add: numeral_3_eq_3)
  have b: "force (Code (map Str [''ab'', ''c'']) ?t2)
     = [Some (sample_source, 7), Some (sample_source, 8), Some (sample_source, 9)]"
    unfolding force_def c2 by (simp add: u)
  show ?thesis using a b c3 by (simp only: simp_thms)
qed

text \<open>
  Claim C9 as stated fails for a code nested in another: the offsets are not summed over
  the enclosing codes, and a \<^verbatim>\<open>null\<close> offset of an enclosing code does not fix the
  position of the characters of a nested code that has a tag chain of its own.  Under a
  root with a \<^verbatim>\<open>null\<close> offset the two characters of the nested code map to 7 and 8;
  under a root with offset 10 the character of a nested code with offset 5 maps to 5.
\<close>

theorem nested_tag_keeps_own_offsets:
  "force (Code [Str ''x'', Code [Str ''ab''] (LTagged (LSource sample_source) (Off 7))]
       (LTagged (LSource sample_source) OffNull))
     = [Some (sample_source, 0), Some (sample_source, 7), Some (sample_source, 8)]
   \<and> force (Code [Code [Str ''a''] (LTagged (LSource sample_source) (Off 5))]
       (LTagged (LSource sample_source) (Off 10)))
     = [Some (sample_source, 5)]"
  by code_simp

section \<open>The validation of a fragment\<close>










section \<open>The interpretation of plain objects\<close>

lemma exec_name_end_split:
  "exec_name_end src =
     (case dropWhile name_char src of
        [] \<Rightarrow> None
      | c # cs \<Rightarrow> Some (length (takeWhile name_char src),
                       if css_space c then length (takeWhile css_space (c # cs)) else 0))"
proof (induction src)
  case Nil
  then show ?case by simp
next
  case (Cons a src)
  show ?case
  proof (cases "name_char a")
    case True
    then have "\<not> css_space a" "\<not> css_meta a" by (simp_all add: name_char_def)
    with True Cons show ?thesis
      by (cases "dropWhile name_char src") (simp_all del: dropWhile_eq_Nil_conv)
  next
    case False
    then show ?thesis by (auto simp: name_char_def)
  qed
qed

lemma drop_takeWhile_length: "drop (length (takeWhile P xs)) xs = dropWhile P xs"
  by (induction xs) auto

lemma atrule_name_split: "atrule_name src = takeWhile name_char src"
proof (cases "dropWhile name_char src")
  case Nil
  then have tw: "takeWhile name_char src = src"
    by (metis takeWhile_dropWhile_id append_Nil2)
  show ?thesis
    unfolding atrule_name_def exec_name_end_split Nil tw by simp
next
  case (Cons c cs)
  have "take (length (takeWhile name_char src)) src = takeWhile name_char src"
    by (metis takeWhile_eq_take)
  then show ?thesis
    unfolding atrule_name_def exec_name_end_split Cons
    by (simp add: slice_def js_index_def min_def length_takeWhile_le)
qed

lemma atrule_params_split: "atrule_params src = dropWhile css_space (dropWhile name_char src)"
proof (cases "dropWhile name_char src")
  case Nil
  show ?thesis
    unfolding atrule_params_def exec_name_end_split Nil by simp
next
  case (Cons c cs)
  let ?i = "length (takeWhile name_char src)"
  have le: "?i \<le> length src" by (rule length_takeWhile_le)
  show ?thesis
  proof (cases "css_space c")
    case True
    let ?n = "length (takeWhile css_space (c # cs))"
    have n: "?n \<le> length (c # cs)" by (rule length_takeWhile_le)
    have "length src = length (takeWhile name_char src @ dropWhile name_char src)" by simp
    then have len: "length src = ?i + length (c # cs)"
      unfolding Cons by (simp only: length_append)
    have "drop (?i + ?n) src = drop ?n (drop ?i src)" by (simp add: add.commute)
    also have "\<dots> = drop ?n (c # cs)" by (simp only: drop_takeWhile_length Cons)
    also have "\<dots> = dropWhile css_space (c # cs)" by (rule drop_takeWhile_length)
    finally have d: "drop (?i + ?n) src = dropWhile css_space (c # cs)" .
    have m: "min (?i + ?n) (length src) = ?i + ?n" using n len by simp
    have "nat (int (?i + ?n)) = ?i + ?n" by simp
    then have "atrule_params src = drop (min (?i + ?n) (length src)) src"
      unfolding atrule_params_def exec_name_end_split Cons using True
      by (simp add: slice_from_def js_index_def del: takeWhile.simps of_nat_add)
    then show ?thesis unfolding m d Cons .
  next
    case False
    have d: "drop ?i src = c # cs" by (simp only: drop_takeWhile_length Cons)
    have m: "min ?i (length src) = ?i" using le by simp
    have "atrule_params src = drop (min ?i (length src)) src"
      unfolding atrule_params_def exec_name_end_split Cons using False
      by (simp add: slice_from_def js_index_def)
    then show ?thesis unfolding m d Cons using False by simp
  qed
qed

lemma slice_from_one: "slice_from key 1 = tl key"
  by (cases key) (simp_all add: slice_from_def js_index_def)

lemma reflect_split: "reflect cx n = (reflected cx, attributed cx n)"
  by (simp add: reflect_def reflected_def attributed_def)

lemma unexpected_reflected: "unexpected h (reflected cx) v = unexpected h cx v"
  by (simp add: unexpected_def reflected_def)

lemma nest_reflected: "nest (reflected cx) = nest cx"
  by (simp add: nest_def reflected_def)

lemma reflected_reflected: "reflected (reflected cx) = reflected cx"
  by (simp add: reflected_def)

lemma attributed_reflected: "attributed (reflected cx) n = attributed cx n"
  by (simp add: attributed_def reflect_def reflected_def)

lemma interpretObject_entry_eq:
  "interpretObject h cx ((key, v) # entries) =
     (if startsWith key ''@'' then
        (if isInterpretable v then
           (case interpretUnknown h (nest cx) v of
              (ns, Inl e) \<Rightarrow> ([], Inl e)
            | (ns, Inr returned) \<Rightarrow>
                followed_by
                  (appendNodes
                     (attributed cx (AtRule None empty_raws (takeWhile name_char (tl key))
                        (dropWhile css_space (dropWhile name_char (tl key))) None)) ns returned)
                  (interpretObject h (reflected cx) entries))
         else if v = Undefined then
           followed_by
             (attributed cx (AtRule None empty_raws (takeWhile name_char (tl key))
                (dropWhile css_space (dropWhile name_char (tl key))) None))
             (interpretObject h (reflected cx) entries)
         else ([], Inl (unexpected h cx v)))
      else if isInterpretable v then
        (case interpretUnknown h (nest cx) v of
           (ns, Inl e) \<Rightarrow> ([], Inl e)
         | (ns, Inr returned) \<Rightarrow>
             followed_by (appendNodes (attributed cx (Rule None empty_raws key [])) ns returned)
               (interpretObject h (reflected cx) entries))
      else if isStringifiable v then
        (case js_String h v of
           Inl e \<Rightarrow> ([], Inl e)
         | Inr val \<Rightarrow>
             followed_by (attributed cx (Decl None empty_raws key val))
               (interpretObject h (reflected cx) entries))
      else ([], Inl (unexpected h cx v)))"
  by (simp add: reflect_split slice_from_one atrule_name_split atrule_params_split
      interpretUnknown_def followed_by_def unexpected_reflected nest_reflected Let_def
      split: sum.splits prod.splits)

lemma interpretObject_single:
  "interpretObject h cx [(key, v)] =
     (if startsWith key ''@'' then
        (if isInterpretable v then
           (case interpretUnknown h (nest cx) v of
              (ns, Inl e) \<Rightarrow> ([], Inl e)
            | (ns, Inr returned) \<Rightarrow>
                ([appendNodes
                     (attributed cx (AtRule None empty_raws (takeWhile name_char (tl key))
                        (dropWhile css_space (dropWhile name_char (tl key))) None)) ns returned],
                 Inr (reflected cx)))
         else if v = Undefined then
           ([attributed cx (AtRule None empty_raws (takeWhile name_char (tl key))
                (dropWhile css_space (dropWhile name_char (tl key))) None)], Inr (reflected cx))
         else ([], Inl (unexpected h cx v)))
      else if isInterpretable v then
        (case interpretUnknown h (nest cx) v of
           (ns, Inl e) \<Rightarrow> ([], Inl e)
         | (ns, Inr returned) \<Rightarrow>
             ([appendNodes (attributed cx (Rule None empty_raws key [])) ns returned], Inr (reflected cx)))
      else if isStringifiable v then
        (case js_String h v of
           Inl e \<Rightarrow> ([], Inl e)
         | Inr val \<Rightarrow> ([attributed cx (Decl None empty_raws key val)], Inr (reflected cx)))
      else ([], Inl (unexpected h cx v)))"
  unfolding interpretObject_entry_eq
  by (simp add: followed_by_def split: sum.splits prod.splits)

lemma single_cases:
  "(\<exists>e. interpretObject h cx [kv] = ([], Inl e)) \<or> (\<exists>n. interpretObject h cx [kv] = ([n], Inr (reflected cx)))"
  by (cases kv) (simp add: interpretObject_single del: interpretObject.simps split: sum.splits prod.splits)

lemma entry_split:
  "interpretObject h cx (kv # entries) =
     (case interpretObject h cx [kv] of
        ([], res) \<Rightarrow> ([], res)
      | (n # ns, res) \<Rightarrow> followed_by n (interpretObject h (reflected cx) entries))"
proof -
  obtain key v where kv: "kv = (key, v)" by (cases kv)
  show ?thesis
    unfolding kv
    apply (subst interpretObject_single)
    apply (subst interpretObject_entry_eq)
    apply (simp split: sum.splits prod.splits del: interpretObject.simps)
    done
qed

lemma single_fails:
  "interpretObject h cx [kv] = ([], Inl e) \<Longrightarrow> interpretObject h cx (kv # entries) = ([], Inl e)"
  by (subst entry_split) (simp del: interpretObject.simps)

lemma single_yields:
  "interpretObject h cx [kv] = ([n], Inr c) \<Longrightarrow>
     interpretObject h cx (kv # entries) = followed_by n (interpretObject h (reflected cx) entries)"
  by (subst entry_split) (simp del: interpretObject.simps)

lemma attributed_cases:
  "\<exists>s'. attributed cx (AtRule s r name params nodes) = AtRule s' r name params nodes"
  "\<exists>s'. attributed cx (Rule s r selector kids) = Rule s' r selector kids"
  "\<exists>s'. attributed cx (Decl s r p v) = Decl s' r p v"
  by (auto simp: attributed_def reflect_def split: option.splits)

lemma appendNodes_cases:
  "\<exists>r'. appendNodes (AtRule s r name params None) ns returned = AtRule s r' name params (Some ns)"
  "\<exists>r'. appendNodes (Rule s r selector []) ns returned = Rule s r' selector ns"
  by (auto simp: appendNodes_def Let_def split: option.splits)

lemma single_node:
  assumes "interpretObject h cx [kv] = ([n], Inr c)"
  shows "entry_node h cx kv n"
proof -
  obtain key v where kv: "kv = (key, v)" by (cases kv)
  let ?name = "takeWhile name_char (tl key)"
  let ?params = "dropWhile css_space (dropWhile name_char (tl key))"
  note res = assms[unfolded kv interpretObject_single]
  show ?thesis
  proof (cases "startsWith key ''@''")
    case at: True
    obtain s' where s': "attributed cx (AtRule None empty_raws ?name ?params None)
        = AtRule s' empty_raws ?name ?params None"
      using attributed_cases(1) by blast
    show ?thesis
    proof (cases "isInterpretable v")
      case True
      with at res obtain bs returned where
        run: "interpretUnknown h (nest cx) v = (bs, Inr returned)"
        and n: "n = appendNodes (AtRule s' empty_raws ?name ?params None) bs returned"
        by (auto simp: s' split: sum.splits prod.splits)
      obtain r' where "appendNodes (AtRule s' empty_raws ?name ?params None) bs returned
          = AtRule s' r' ?name ?params (Some bs)"
        using appendNodes_cases(1) by blast
      with n have n': "n = AtRule s' r' ?name ?params (Some bs)" by simp
      have v: "v \<noteq> Undefined" using True by (auto simp: isInterpretable_def)
      show ?thesis unfolding kv n' using at True v run by simp
    next
      case False
      with at res have v: "v = Undefined" by (auto split: if_splits)
      with at False res have n: "n = AtRule s' empty_raws ?name ?params None"
        by (simp add: s')
      show ?thesis unfolding kv n using at v by simp
    qed
  next
    case noat: False
    show ?thesis
    proof (cases "isInterpretable v")
      case True
      obtain s' where s': "attributed cx (Rule None empty_raws key []) = Rule s' empty_raws key []"
        using attributed_cases(2) by blast
      from noat True res obtain bs returned where
        run: "interpretUnknown h (nest cx) v = (bs, Inr returned)"
        and n: "n = appendNodes (Rule s' empty_raws key []) bs returned"
        by (auto simp: s' split: sum.splits prod.splits)
      obtain r' where "appendNodes (Rule s' empty_raws key []) bs returned = Rule s' r' key bs"
        using appendNodes_cases(2) by blast
      with n have n': "n = Rule s' r' key bs" by simp
      show ?thesis unfolding kv n' using noat True run by simp
    next
      case False
      with noat res have str: "isStringifiable v" by (auto split: if_splits)
      with noat False res obtain val where val: "js_String h v = Inr val"
        and n: "n = attributed cx (Decl None empty_raws key val)"
        by (auto split: sum.splits)
      obtain s' where s': "attributed cx (Decl None empty_raws key val) = Decl s' empty_raws key val"
        using attributed_cases(3) by blast
      show ?thesis unfolding kv n s' using noat False str val by simp
    qed
  qed
qed

lemma single_reflected: "interpretObject h (reflected cx) [kv] = interpretObject h cx [kv]"
  by (cases kv) (simp add: interpretObject_single nest_reflected attributed_reflected
      unexpected_reflected reflected_reflected del: interpretObject.simps
      split: sum.splits prod.splits)

lemma entry_node_reflected: "entry_node h (reflected cx) kv n = entry_node h cx kv n"
  by (cases kv; cases n) (simp_all add: nest_reflected)

lemma interpretObject_nodes:
  "interpretObject h cx es = (ns, res) \<Longrightarrow>
     list_all2 (entry_node h cx) (take (length ns) es) ns
     \<and> (case res of
          Inr cx' \<Rightarrow> length ns = length es \<and> cx' = (if es = [] then cx else reflected cx)
        | Inl e \<Rightarrow> length ns < length es \<and> interpretObject h cx [es ! length ns] = ([], Inl e))"
proof (induction es arbitrary: cx ns res)
  case Nil
  then show ?case by auto
next
  case (Cons kv entries)
  from single_cases[of h cx kv] show ?case
  proof (elim disjE exE)
    fix e assume f: "interpretObject h cx [kv] = ([], Inl e)"
    from single_fails[OF f, of entries] Cons.prems have "ns = []" "res = Inl e" by simp_all
    with f show ?thesis by simp
  next
    fix n assume y: "interpretObject h cx [kv] = ([n], Inr (reflected cx))"
    obtain ms res' where rest: "interpretObject h (reflected cx) entries = (ms, res')"
      by (cases "interpretObject h (reflected cx) entries")
    from single_yields[OF y, of entries] Cons.prems rest
    have ns: "ns = n # ms" and res: "res = res'" by (simp_all add: followed_by_def)
    note ih = Cons.IH[OF rest, unfolded entry_node_reflected single_reflected reflected_reflected]
    have node: "entry_node h cx kv n" by (rule single_node[OF y])
    show ?thesis
    proof (cases res')
      case (Inl e)
      with ih node show ?thesis unfolding ns res by simp
    next
      case (Inr cx')
      with ih node show ?thesis unfolding ns res by (auto split: if_splits)
    qed
  qed
qed

text \<open>
  Claim C1, amended.  The entries of a plain object are interpreted in the order of
  \<^verbatim>\<open>Object.entries\<close>, and each entry yields its one node before the entries after it
  are looked at, or throws and ends the interpretation.  For a key that starts with
  \<^verbatim>\<open>@\<close> the node is an at-rule whose name is the key after the \<^verbatim>\<open>@\<close> up to the first
  white space or meta character and whose params are the rest (without the white space);
  it gets as its block the nodes of the interpreted value when the value is
  interpretable, has no block when the value is \<^verbatim>\<open>undefined\<close>, and any other value is
  an error of classification.  For another key with an interpretable value the node is a
  rule with the key as selector and the nodes of the interpreted value as block; with a
  stringifiable value it is a declaration of the key with \<^verbatim>\<open>String(value)\<close>, and when
  \<^verbatim>\<open>String(value)\<close> throws the entry throws that error; any other value is an error of
  classification.  An error of the interpretation of the value of an entry is thrown by
  the entry, which yields no node then.  So the nodes that an object yields are the
  nodes of its first entries, one for each, in order and of the kind that the entry asks
  for, with the nodes of the interpreted value as the block: of all entries when the
  interpretation returns, and otherwise of the entries before the first one that throws,
  whose error is the error of the object.
\<close>

theorem interpretObject_classifies:
  "interpretObject h cx ((key, v) # entries) =
     (if startsWith key ''@'' then
        (if isInterpretable v then
           (case interpretUnknown h (nest cx) v of
              (ns, Inl e) \<Rightarrow> ([], Inl e)
            | (ns, Inr returned) \<Rightarrow>
                followed_by
                  (appendNodes
                     (attributed cx (AtRule None empty_raws (takeWhile name_char (tl key))
                        (dropWhile css_space (dropWhile name_char (tl key))) None)) ns returned)
                  (interpretObject h (reflected cx) entries))
         else if v = Undefined then
           followed_by
             (attributed cx (AtRule None empty_raws (takeWhile name_char (tl key))
                (dropWhile css_space (dropWhile name_char (tl key))) None))
             (interpretObject h (reflected cx) entries)
         else ([], Inl (unexpected h cx v)))
      else if isInterpretable v then
        (case interpretUnknown h (nest cx) v of
           (ns, Inl e) \<Rightarrow> ([], Inl e)
         | (ns, Inr returned) \<Rightarrow>
             followed_by (appendNodes (attributed cx (Rule None empty_raws key [])) ns returned)
               (interpretObject h (reflected cx) entries))
      else if isStringifiable v then
        (case js_String h v of
           Inl e \<Rightarrow> ([], Inl e)
         | Inr val \<Rightarrow>
             followed_by (attributed cx (Decl None empty_raws key val))
               (interpretObject h (reflected cx) entries))
      else ([], Inl (unexpected h cx v)))
   \<and> (interpretObject h cx es = (ns, res) \<longrightarrow>
        list_all2 (entry_node h cx) (take (length ns) es) ns
        \<and> (case res of
             Inr cx' \<Rightarrow> length ns = length es \<and> cx' = (if es = [] then cx else reflected cx)
           | Inl e \<Rightarrow> length ns < length es \<and> interpretObject h cx [es ! length ns] = ([], Inl e)))"
  by (rule conjI[OF interpretObject_entry_eq impI]) (rule interpretObject_nodes)

text \<open>
  The theorem at an object with an at-rule with a block, a rule, a declaration and an
  at-rule without block, and at an object whose second entry is \<^verbatim>\<open>color: null\<close>: the
  declaration of the first entry is yielded before the error.
\<close>

theorem interpretObject_classifies_witness:
  "interpretObject sample_rt no_context
     [(''@media print'', Iter [Plain [(''color'', JStr ''black'')]] (Inr Undefined)),
      (''main'', Plain [(''color'', JStr ''red'')]),
      (''width'', JNum 100),
      (''@charset'', Undefined)]
     = ([AtRule None \<lparr>between = None, afterName = None, semicolon = Some True\<rparr> ''media'' ''print''
               (Some [Decl None empty_raws ''color'' ''black'']),
         Rule None \<lparr>between = None, afterName = None, semicolon = Some True\<rparr> ''main''
               [Decl None empty_raws ''color'' ''red''],
         Decl None empty_raws ''width'' ''100'',
         AtRule None empty_raws ''charset'' [] None], Inr no_context)
   \<and> list_all2 (entry_node sample_rt no_context)
     [(''@media print'', Iter [Plain [(''color'', JStr ''black'')]] (Inr Undefined)),
      (''main'', Plain [(''color'', JStr ''red'')]),
      (''width'', JNum 100),
      (''@charset'', Undefined)]
     [AtRule None \<lparr>between = None, afterName = None, semicolon = Some True\<rparr> ''media'' ''print''
               (Some [Decl None empty_raws ''color'' ''black'']),
      Rule None \<lparr>between = None, afterName = None, semicolon = Some True\<rparr> ''main''
               [Decl None empty_raws ''color'' ''red''],
      Decl None empty_raws ''width'' ''100'',
      AtRule None empty_raws ''charset'' [] None]
   \<and> interpretObject sample_rt no_context
        [(''width'', JNum 100), (''color'', Null), (''height'', JNum 1)]
     = ([Decl None empty_raws ''width'' ''100''],
        Inl \<lparr>message = ''attempt to inject an invalid value: null'', is_object = True, frozen = False,
             errorPos = None\<rparr>)
   \<and> list_all2 (entry_node sample_rt no_context)
        [(''width'', JNum 100)] [Decl None empty_raws ''width'' ''100'']
   \<and> interpretObject sample_rt no_context [(''color'', Null)]
     = ([], Inl \<lparr>message = ''attempt to inject an invalid value: null'', is_object = True, frozen = False,
            errorPos = None\<rparr>)"
proof -
  let ?es = "[(''@media print'', Iter [Plain [(''color'', JStr ''black'')]] (Inr Undefined)),
      (''main'', Plain [(''color'', JStr ''red'')]),
      (''width'', JNum 100),
      (''@charset'', Undefined)]"
  let ?ns = "[AtRule None \<lparr>between = None, afterName = None, semicolon = Some True\<rparr> ''media'' ''print''
               (Some [Decl None empty_raws ''color'' ''black'']),
      Rule None \<lparr>between = None, afterName = None, semicolon = Some True\<rparr> ''main''
               [Decl None empty_raws ''color'' ''red''],
      Decl None empty_raws ''width'' ''100'',
      AtRule None empty_raws ''charset'' [] None]"
  let ?bad = "[(''width'', JNum 100), (''color'', Null), (''height'', JNum 1)]"
  let ?d = "Decl None empty_raws ''width'' ''100''"
  let ?e = "\<lparr>message = ''attempt to inject an invalid value: null'', is_object = True, frozen = False,
             errorPos = None\<rparr>"
  have run: "interpretObject sample_rt no_context ?es = (?ns, Inr no_context)"
    by code_simp
  have tk: "take (length ?ns) ?es = ?es" by simp
  have "list_all2 (entry_node sample_rt no_context) (take (length ?ns) ?es) ?ns"
    using interpretObject_classifies[where h = sample_rt and cx = no_context and es = ?es
        and ns = ?ns and res = "Inr no_context"] run
    by blast
  then have nodes: "list_all2 (entry_node sample_rt no_context) ?es ?ns"
    by (simp only: tk)
  have fail: "interpretObject sample_rt no_context ?bad = ([?d], Inl ?e)"
    by code_simp
  have tk1: "take (length [?d]) ?bad = [(''width'', JNum 100)]" by simp
  have at1: "?bad ! length [?d] = (''color'', Null)" by simp
  have c: "(case (Inl ?e :: thrown + icontext) of
             Inr cx' \<Rightarrow> length [?d] = length ?bad \<and> cx' = (if ?bad = [] then no_context else reflected no_context)
           | Inl e \<Rightarrow> length [?d] < length ?bad
               \<and> interpretObject sample_rt no_context [?bad ! length [?d]] = ([], Inl e))
        = (length [?d] < length ?bad
               \<and> interpretObject sample_rt no_context [?bad ! length [?d]] = ([], Inl ?e))"
    by (simp only: sum.case)
  have "list_all2 (entry_node sample_rt no_context) (take (length [?d]) ?bad) [?d]
      \<and> length [?d] < length ?bad
      \<and> interpretObject sample_rt no_context [?bad ! length [?d]] = ([], Inl ?e)"
    using interpretObject_classifies[where h = sample_rt and cx = no_context and es = ?bad
        and ns = "[?d]" and res = "Inl ?e", THEN conjunct2] fail
    unfolding c by blast
  then have first: "list_all2 (entry_node sample_rt no_context) [(''width'', JNum 100)] [?d]"
    and err: "interpretObject sample_rt no_context [(''color'', Null)] = ([], Inl ?e)"
    by (simp_all only: tk1 at1)
  show ?thesis by (intro conjI) (rule run, rule nodes, rule fail, rule first, rule err)
qed

text \<open>
  Claim C1 as stated fails for a stringifiable value whose \<^verbatim>\<open>String()\<close> throws, such as
  an object of a class whose \<^verbatim>\<open>toString\<close> throws: the value is neither \<^verbatim>\<open>null\<close> nor
  \<^verbatim>\<open>undefined\<close> nor a function nor interpretable and has a \<^verbatim>\<open>toString\<close> of its own, but
  the entry gives no declaration, and the error is the one of \<^verbatim>\<open>toString\<close>, not the
  error of classification.  The declaration of the entry before it has been yielded.
\<close>

theorem string_of_value_throws:
  "isStringifiable (Obj True ''unprintable'') \<and> \<not> isInterpretable (Obj True ''unprintable'')
   \<and> interpretObject sample_rt no_context
        [(''width'', JNum 100), (''color'', Obj True ''unprintable''), (''height'', JNum 1)]
     = ([Decl None empty_raws ''width'' ''100''],
        Inl \<lparr>message = ''Error: unprintable'', is_object = True, frozen = False, errorPos = None\<rparr>)
   \<and> unexpected sample_rt no_context (Obj True ''unprintable'')
     = \<lparr>message = ''attempt to inject an invalid value: [Object]'', is_object = True, frozen = False,
        errorPos = None\<rparr>"
  by code_simp

section \<open>The main loop\<close>

lemma mainLoop_from_step: "mainLoop_from h st = continue_with h (ml_step h st)"
  by (subst mainLoop_from.simps) (simp add: continue_with_def)

lemma step_held: "ml_next st = Some item \<Longrightarrow> ml_step h st = pending h st item"
  by (simp add: ml_step_def)

lemma fetched_is_held:
  assumes "ml_next st = None" "fetch (ml_context st) (ml_iter st) (ml_stack st) = Fetched item cx it stack"
  shows "mainLoop_from h st =
    mainLoop_from h (st\<lparr>ml_next := Some item, ml_context := cx, ml_iter := it, ml_stack := stack\<rparr>)"
proof -
  let ?st = "st\<lparr>ml_next := Some item, ml_context := cx, ml_iter := it, ml_stack := stack\<rparr>"
  have "ml_step h st = pending h ?st item" using assms by (simp add: ml_step_def)
  moreover have "ml_step h ?st = pending h ?st item" by (simp add: ml_step_def)
  ultimately show ?thesis by (simp add: mainLoop_from_step)
qed

lemma direct_classification:
  "ml_func st = None \<Longrightarrow> ml_next st = Some v \<Longrightarrow>
   mainLoop_from h st = continue_with h (classify h (st\<lparr>ml_next := None\<rparr>) v)"
  by (simp add: mainLoop_from_step step_held pending_def)

lemma end_calls_pending:
  "ml_func st = Some f \<Longrightarrow> ml_next st = Some (EndJs True) \<Longrightarrow> call h f None = Inr v \<Longrightarrow>
   mainLoop_from h st =
     continue_with h (classify h (st\<lparr>ml_func := None, ml_calls := ml_calls st @ [(f, None)]\<rparr>) v)"
  by (simp add: mainLoop_from_step step_held pending_def)

lemma end_calls_chain:
  "ml_func st = Some f \<Longrightarrow> ml_next st = Some (EndJs True) \<Longrightarrow> call_chain h f gs v \<Longrightarrow>
   mainLoop_from h st =
     continue_with h
       (classify h (st\<lparr>ml_func := None, ml_calls := ml_calls st @ map (\<lambda>g. (g, None)) (f # gs)\<rparr>) v)"
proof (induction gs arbitrary: st f)
  case Nil
  then show ?case by (simp add: end_calls_pending)
next
  case (Cons g gs)
  let ?st1 = "st\<lparr>ml_calls := ml_calls st @ [(f, None)], ml_func := Some g\<rparr>"
  from Cons.prems have c: "call h f None = Inr (Func g)" and ch: "call_chain h g gs v" by simp_all
  have "mainLoop_from h st = mainLoop_from h ?st1"
    using end_calls_pending[OF Cons.prems(1,2) c] by (simp add: continue_with_def)
  also have "\<dots> = continue_with h
       (classify h (?st1\<lparr>ml_func := None, ml_calls := ml_calls ?st1 @ map (\<lambda>g. (g, None)) (g # gs)\<rparr>) v)"
    using Cons.prems(2) by (intro Cons.IH[OF _ _ ch]) simp_all
  finally show ?case by simp
qed

lemma argument_call:
  "ml_func st = Some f \<Longrightarrow> ml_next st = Some x \<Longrightarrow> \<not> is_EndJs x \<Longrightarrow> call h f (Some x) = Inr v \<Longrightarrow>
   mainLoop_from h st =
     continue_with h
       (classify h (st\<lparr>ml_next := None, ml_func := None, ml_calls := ml_calls st @ [(f, Some x)]\<rparr>) v)"
  by (cases x) (simp_all add: mainLoop_from_step step_held pending_def)

lemma failed_end_cancels:
  assumes "ml_func st = Some f" "ml_next st = Some (EndJs False)"
  shows "mainLoop_from h st = mainLoop_from h (st\<lparr>ml_func := None, ml_next := None\<rparr>)"
proof -
  let ?st1 = "st\<lparr>ml_func := None\<rparr>"
  have "mainLoop_from h st = mainLoop_from h ?st1"
    using assms by (simp add: mainLoop_from_step step_held pending_def continue_with_def)
  also have "\<dots> = mainLoop_from h (?st1\<lparr>ml_next := None\<rparr>)"
    using assms(2) by (simp add: direct_classification continue_with_def)
  finally show ?thesis by simp
qed

lemma undefined_skipped:
  assumes "ml_func st = None" "ml_next st = None" "ml_iter st = (Undefined # items, r)"
  shows "mainLoop_from h st = mainLoop_from h (st\<lparr>ml_iter := (items, r)\<rparr>)"
proof -
  let ?st1 = "st\<lparr>ml_next := Some Undefined, ml_context := ml_context st, ml_iter := (items, r),
      ml_stack := ml_stack st\<rparr>"
  have "mainLoop_from h st = mainLoop_from h ?st1"
    using assms by (intro fetched_is_held) simp_all
  also have "\<dots> = continue_with h (classify h (?st1\<lparr>ml_next := None\<rparr>) Undefined)"
    using assms(1) by (intro direct_classification) simp_all
  also have "?st1\<lparr>ml_next := None\<rparr> = st\<lparr>ml_iter := (items, r)\<rparr>"
    using assms(2) by simp
  finally show ?thesis by (simp add: continue_with_def)
qed

lemma null_rejected:
  assumes "ml_func st = None" "ml_next st = None" "ml_iter st = (Null # items, r)"
  shows "mainLoop_from h st = Some (Inl (unexpected h (ml_context st) Null), st\<lparr>ml_iter := (items, r)\<rparr>)"
proof -
  let ?st1 = "st\<lparr>ml_next := Some Null, ml_context := ml_context st, ml_iter := (items, r),
      ml_stack := ml_stack st\<rparr>"
  have "mainLoop_from h st = mainLoop_from h ?st1"
    using assms by (intro fetched_is_held) simp_all
  also have "\<dots> = continue_with h (classify h (?st1\<lparr>ml_next := None\<rparr>) Null)"
    using assms(1) by (intro direct_classification) simp_all
  also have "?st1\<lparr>ml_next := None\<rparr> = st\<lparr>ml_iter := (items, r)\<rparr>"
    using assms(2) by simp
  finally show ?thesis by (simp add: continue_with_def)
qed

lemma message_Unexpected:
  "message (Unexpected_create h v pos) = ''attempt to inject an invalid value: '' @ inspect h 3 v"
  by (cases pos) (simp_all add: Unexpected_create_def setProp_def Let_def)

lemma held_step: "held st = Some (item, st') \<Longrightarrow> mainLoop_from h st = continue_with h (pending h st' item)"
  by (auto simp add: held_def mainLoop_from_step ml_step_def split: option.splits fetched.splits)

lemma held_is_held: "held st = Some (item, st') \<Longrightarrow> ml_next st' = Some item"
  by (auto simp add: held_def split: option.splits fetched.splits)

lemma held_keeps:
  "held st = Some (item, st') \<Longrightarrow> ml_func st' = ml_func st \<and> ml_calls st' = ml_calls st \<and> ml_yielded st' = ml_yielded st"
  by (auto simp add: held_def split: option.splits fetched.splits)

lemma held_mainLoop: "held st = Some (item, st') \<Longrightarrow> mainLoop_from h st = mainLoop_from h st'"
  by (auto simp add: held_def fetched_is_held split: option.splits fetched.splits)

text \<open>
  Claim C2.  When a function \<open>f\<close> is pending and the item of the round is an \<^verbatim>\<open>EndJs\<close>
  with \<^verbatim>\<open>success = true\<close>, \<open>f\<close> is called without argument; as long as the call returns
  a function, that function is pending in turn and is called in the same way, the
  \<^verbatim>\<open>EndJs\<close> being still held; the value \<open>v\<close> that is not a function goes through the
  classification of the loop, after exactly the calls \<open>f()\<close>, \<open>g\<^sub>1()\<close>, \<open>\<dots>\<close> in this order.
  That classification is the one of a value that is yielded while no function is
  pending (second part).  A function returned by a pending function that was called
  with an argument is the pending function of the next round (third part).
\<close>

theorem pending_continuation_chain:
  "(ml_func st = Some f \<and> held st = Some (EndJs True, st') \<and> call_chain h f gs v \<longrightarrow>
      mainLoop_from h st =
        continue_with h
          (classify h (st'\<lparr>ml_func := None, ml_calls := ml_calls st @ map (\<lambda>g. (g, None)) (f # gs)\<rparr>) v))
   \<and> (ml_func st = None \<and> held st = Some (v, st') \<longrightarrow>
      mainLoop_from h st = continue_with h (classify h (st'\<lparr>ml_next := None\<rparr>) v))
   \<and> (ml_func st = Some f \<and> held st = Some (x, st') \<and> \<not> is_EndJs x \<and> call h f (Some x) = Inr (Func g) \<longrightarrow>
      mainLoop_from h st =
        mainLoop_from h (st'\<lparr>ml_next := None, ml_calls := ml_calls st @ [(f, Some x)], ml_func := Some g\<rparr>))"
proof (intro conjI impI)
  assume a: "ml_func st = Some f \<and> held st = Some (EndJs True, st') \<and> call_chain h f gs v"
  then have "mainLoop_from h st = mainLoop_from h st'" by (simp add: held_mainLoop)
  moreover have "ml_func st' = Some f" "ml_next st' = Some (EndJs True)" "ml_calls st' = ml_calls st"
    using a held_keeps[of st "EndJs True" st'] held_is_held[of st "EndJs True" st'] by simp_all
  ultimately show "mainLoop_from h st =
        continue_with h
          (classify h (st'\<lparr>ml_func := None, ml_calls := ml_calls st @ map (\<lambda>g. (g, None)) (f # gs)\<rparr>) v)"
    using a end_calls_chain[of st' f h gs v] by simp
next
  assume a: "ml_func st = None \<and> held st = Some (v, st')"
  then have "mainLoop_from h st = mainLoop_from h st'" by (simp add: held_mainLoop)
  moreover have "ml_func st' = None" "ml_next st' = Some v"
    using a held_keeps[of st v st'] held_is_held[of st v st'] by simp_all
  ultimately show "mainLoop_from h st = continue_with h (classify h (st'\<lparr>ml_next := None\<rparr>) v)"
    by (simp add: direct_classification)
next
  assume a: "ml_func st = Some f \<and> held st = Some (x, st') \<and> \<not> is_EndJs x \<and> call h f (Some x) = Inr (Func g)"
  then have "mainLoop_from h st = mainLoop_from h st'" by (simp add: held_mainLoop)
  moreover have "ml_func st' = Some f" "ml_next st' = Some x" "ml_calls st' = ml_calls st"
    using a held_keeps[of st x st'] held_is_held[of st x st'] by simp_all
  ultimately show "mainLoop_from h st =
        mainLoop_from h (st'\<lparr>ml_next := None, ml_calls := ml_calls st @ [(f, Some x)], ml_func := Some g\<rparr>)"
    using a argument_call[of st' f x h "Func g"] by (simp add: continue_with_def)
qed

text \<open>
  At the stream \<^verbatim>\<open>[f, EndJs(true)]\<close>, where \<open>f()\<close> is \<open>g\<close> and \<open>g()\<close> is the object
  \<^verbatim>\<open>{'@media print': undefined}\<close>: two calls without argument and one at-rule.  At the
  stream in which \<open>f\<close> is followed by \<open>g\<close> and an object, each function is called with
  the item after it.
\<close>

theorem pending_continuation_chain_witness:
  "mainLoop curried_rt ([Func 0, EndJs True], Inr Undefined)
     = Some (Inr None,
         \<lparr>ml_func = None, ml_next = None, ml_context = no_context, ml_stack = [],
          ml_iter = ([], Inr Undefined),
          ml_yielded = [AtRule None empty_raws ''media'' ''print'' None],
          ml_calls = [(0, None), (1, None)]\<rparr>)
   \<and> mainLoop_from curried_rt ((ml_init ([Func 1, Plain [(''color'', JStr ''red'')]], Inr Undefined))\<lparr>ml_func := Some 0\<rparr>)
     = Some (Inr None,
         \<lparr>ml_func = None, ml_next = None, ml_context = no_context, ml_stack = [],
          ml_iter = ([], Inr Undefined),
          ml_yielded = [AtRule None (empty_raws\<lparr>semicolon := Some True\<rparr>) ''media'' ''print''
             (Some [Decl None empty_raws ''color'' ''red''])],
          ml_calls = [(0, Some (Func 1)), (1, Some (Plain [(''color'', JStr ''red'')]))]\<rparr>)"
proof -
  let ?r = "Inr Undefined :: thrown + jsval"
  let ?st0 = "ml_init ([Func 0, EndJs True], ?r)"
  let ?st0' = "(ml_init ([EndJs True], ?r))\<lparr>ml_next := Some (Func 0)\<rparr>"
  let ?st1 = "(ml_init ([EndJs True], ?r))\<lparr>ml_func := Some 0\<rparr>"
  let ?st1' = "(ml_init ([], ?r))\<lparr>ml_func := Some 0, ml_next := Some (EndJs True)\<rparr>"
  let ?v = "Plain [(''@media print'', Undefined)]"
  have h0: "ml_func ?st0 = None \<and> held ?st0 = Some (Func 0, ?st0')"
    by (simp add: held_def ml_init_def)
  have "mainLoop_from curried_rt ?st0 = continue_with curried_rt (classify curried_rt (?st0'\<lparr>ml_next := None\<rparr>) (Func 0))"
    using pending_continuation_chain[of ?st0 0 ?st0' curried_rt "[]" "Func 0" "Func 0" 0] h0 by blast
  also have "\<dots> = mainLoop_from curried_rt ?st1"
    by (simp add: continue_with_def ml_init_def)
  finally have first: "mainLoop_from curried_rt ?st0 = mainLoop_from curried_rt ?st1" .
  have h1: "ml_func ?st1 = Some 0 \<and> held ?st1 = Some (EndJs True, ?st1') \<and> call_chain curried_rt 0 [1] ?v"
    by (simp add: held_def ml_init_def curried_rt_def)
  have "mainLoop_from curried_rt ?st1 =
      continue_with curried_rt
        (classify curried_rt (?st1'\<lparr>ml_func := None, ml_calls := ml_calls ?st1 @ map (\<lambda>g. (g, None)) (0 # [1])\<rparr>) ?v)"
    using pending_continuation_chain[of ?st1 0 ?st1' curried_rt "[1]" ?v "EndJs True" 0] h1 by blast
  also have "\<dots> = Some (Inr None,
         \<lparr>ml_func = None, ml_next = None, ml_context = no_context, ml_stack = [],
          ml_iter = ([], Inr Undefined),
          ml_yielded = [AtRule None empty_raws ''media'' ''print'' None],
          ml_calls = [(0, None), (1, None)]\<rparr>)"
    by code_simp
  finally have a: "mainLoop_from curried_rt ?st1 = Some (Inr None,
         \<lparr>ml_func = None, ml_next = None, ml_context = no_context, ml_stack = [],
          ml_iter = ([], Inr Undefined),
          ml_yielded = [AtRule None empty_raws ''media'' ''print'' None],
          ml_calls = [(0, None), (1, None)]\<rparr>)" .
  let ?p = "Plain [(''color'', JStr ''red'')]"
  let ?st2 = "(ml_init ([Func 1, ?p], ?r))\<lparr>ml_func := Some 0\<rparr>"
  let ?st2' = "(ml_init ([?p], ?r))\<lparr>ml_func := Some 0, ml_next := Some (Func 1)\<rparr>"
  have h2: "ml_func ?st2 = Some 0 \<and> held ?st2 = Some (Func 1, ?st2') \<and> \<not> is_EndJs (Func 1)
      \<and> call curried_rt 0 (Some (Func 1)) = Inr (Func 1)"
    by (simp add: held_def ml_init_def curried_rt_def)
  have "mainLoop_from curried_rt ?st2 =
      mainLoop_from curried_rt (?st2'\<lparr>ml_next := None, ml_calls := ml_calls ?st2 @ [(0, Some (Func 1))], ml_func := Some 1\<rparr>)"
    using pending_continuation_chain[of ?st2 0 ?st2' curried_rt "[]" "Func 1" "Func 1" 1] h2 by blast
  also have "\<dots> = Some (Inr None,
         \<lparr>ml_func = None, ml_next = None, ml_context = no_context, ml_stack = [],
          ml_iter = ([], Inr Undefined),
          ml_yielded = [AtRule None (empty_raws\<lparr>semicolon := Some True\<rparr>) ''media'' ''print''
             (Some [Decl None empty_raws ''color'' ''red''])],
          ml_calls = [(0, Some (Func 1)), (1, Some (Plain [(''color'', JStr ''red'')]))]\<rparr>)"
    by code_simp
  finally have b: "mainLoop_from curried_rt ?st2 = Some (Inr None,
         \<lparr>ml_func = None, ml_next = None, ml_context = no_context, ml_stack = [],
          ml_iter = ([], Inr Undefined),
          ml_yielded = [AtRule None (empty_raws\<lparr>semicolon := Some True\<rparr>) ''media'' ''print''
             (Some [Decl None empty_raws ''color'' ''red''])],
          ml_calls = [(0, Some (Func 1)), (1, Some (Plain [(''color'', JStr ''red'')]))]\<rparr>)" .
  show ?thesis unfolding mainLoop_def using first a b by (simp only:)
qed

text \<open>
  Claim C7, amended.  In the main loop, when no function is pending, an item \<^verbatim>\<open>undefined\<close>
  is skipped: the loop goes on from the state after the item, and no node has been
  yielded; an item \<^verbatim>\<open>null\<close> ends the loop with the error of \<^verbatim>\<open>Unexpected.create\<close>, whose
  message ends with \<^verbatim>\<open>inspect(value, { depth: 3 })\<close>.  Where a declaration value or a
  selector expression is stringified, \<^verbatim>\<open>null\<close> and \<^verbatim>\<open>undefined\<close> are both rejected, with
  that same error: there \<^verbatim>\<open>undefined\<close> is not skipped.
\<close>

theorem undefined_skipped_null_rejected:
  "(ml_func st = None \<and> held st = Some (Undefined, st') \<longrightarrow>
      mainLoop_from h st = mainLoop_from h (st'\<lparr>ml_next := None\<rparr>)
      \<and> ml_yielded (st'\<lparr>ml_next := None\<rparr>) = ml_yielded st)
   \<and> (ml_func st = None \<and> held st = Some (Null, st') \<longrightarrow>
      mainLoop_from h st = Some (Inl (unexpected h (ml_context st') Null), st'\<lparr>ml_next := None\<rparr>))
   \<and> message (unexpected h cx v) = ''attempt to inject an invalid value: '' @ inspect h 3 v
   \<and> stringify h Null = Inl (Unexpected_create h Null None)
   \<and> stringify h Undefined = Inl (Unexpected_create h Undefined None)
   \<and> message (Unexpected_create h v None) = ''attempt to inject an invalid value: '' @ inspect h 3 v"
proof (intro conjI impI)
  assume a: "ml_func st = None \<and> held st = Some (Undefined, st')"
  then have "mainLoop_from h st = mainLoop_from h st'" by (simp add: held_mainLoop)
  moreover have "ml_func st' = None" "ml_next st' = Some Undefined"
    using a held_keeps[of st Undefined st'] held_is_held[of st Undefined st'] by simp_all
  ultimately show "mainLoop_from h st = mainLoop_from h (st'\<lparr>ml_next := None\<rparr>)"
    by (simp add: direct_classification continue_with_def)
  show "ml_yielded (st'\<lparr>ml_next := None\<rparr>) = ml_yielded st"
    using a held_keeps[of st Undefined st'] by simp
next
  assume a: "ml_func st = None \<and> held st = Some (Null, st')"
  then have "mainLoop_from h st = mainLoop_from h st'" by (simp add: held_mainLoop)
  moreover have "ml_func st' = None" "ml_next st' = Some Null"
    using a held_keeps[of st Null st'] held_is_held[of st Null st'] by simp_all
  ultimately show "mainLoop_from h st = Some (Inl (unexpected h (ml_context st') Null), st'\<lparr>ml_next := None\<rparr>)"
    by (simp add: direct_classification continue_with_def)
qed (simp_all add: unexpected_def message_Unexpected stringify_def isStringifiable_def)

text \<open>At the stream \<^verbatim>\<open>[undefined, null]\<close>: the first item is skipped, the second is the error.\<close>

theorem undefined_skipped_null_rejected_witness:
  "mainLoop sample_rt ([Undefined, Null], Inr Undefined)
     = Some (Inl \<lparr>message = ''attempt to inject an invalid value: null'', is_object = True,
                  frozen = False, errorPos = None\<rparr>,
         \<lparr>ml_func = None, ml_next = None, ml_context = no_context, ml_stack = [],
          ml_iter = ([], Inr Undefined), ml_yielded = [], ml_calls = []\<rparr>)"
proof -
  let ?r = "Inr Undefined :: thrown + jsval"
  let ?st0 = "ml_init ([Undefined, Null], ?r)"
  let ?st0' = "(ml_init ([Null], ?r))\<lparr>ml_next := Some Undefined\<rparr>"
  let ?st1 = "ml_init ([Null], ?r)"
  let ?st1' = "(ml_init ([], ?r))\<lparr>ml_next := Some Null\<rparr>"
  note inst0 = undefined_skipped_null_rejected[where st = ?st0 and st' = ?st0' and h = sample_rt]
  note inst1 = undefined_skipped_null_rejected[where st = ?st1 and st' = ?st1' and h = sample_rt]
  have h0: "ml_func ?st0 = None \<and> held ?st0 = Some (Undefined, ?st0')"
    by (simp add: held_def ml_init_def)
  have h1: "ml_func ?st1 = None \<and> held ?st1 = Some (Null, ?st1')"
    by (simp add: held_def ml_init_def)
  have "mainLoop_from sample_rt ?st0 = mainLoop_from sample_rt (?st0'\<lparr>ml_next := None\<rparr>)"
    using inst0 h0 by blast
  also have "?st0'\<lparr>ml_next := None\<rparr> = ?st1" by (simp add: ml_init_def)
  also have "mainLoop_from sample_rt ?st1 =
      Some (Inl (unexpected sample_rt (ml_context ?st1') Null), ?st1'\<lparr>ml_next := None\<rparr>)"
    using inst1 h1 by blast
  also have "\<dots> = Some (Inl \<lparr>message = ''attempt to inject an invalid value: null'', is_object = True,
                  frozen = False, errorPos = None\<rparr>,
         \<lparr>ml_func = None, ml_next = None, ml_context = no_context, ml_stack = [],
          ml_iter = ([], Inr Undefined), ml_yielded = [], ml_calls = []\<rparr>)"
    by code_simp
  finally show ?thesis unfolding mainLoop_def .
qed

text \<open>
  Claim C7 as stated fails in its second half: \<^verbatim>\<open>stringify\<close> treats \<^verbatim>\<open>undefined\<close> as it
  treats \<^verbatim>\<open>null\<close>.  The declaration \<^verbatim>\<open>color: @js undefined\<close> throws the error whose
  message is \<^verbatim>\<open>attempt to inject an invalid value: undefined\<close>.
\<close>

theorem undefined_value_is_rejected:
  "stringify sample_rt Undefined
     = Inl \<lparr>message = ''attempt to inject an invalid value: undefined'', is_object = True,
            frozen = False, errorPos = None\<rparr>
   \<and> run_script toy_world 0
       (DeclValue (Decl (Some sample_source) empty_raws ''color'' ''@js undefined'') 12
          \<lparr>expr = True, ucode = fragment_code (Some sample_source) 11 ''undefined''\<rparr>)
     = Some ([], 12, Throws \<lparr>message = ''attempt to inject an invalid value: undefined'', is_object = True,
            frozen = False, errorPos = None\<rparr>)"
  by code_simp

text \<open>
  Claim C3, amended.  When the blocks of a container that has code throw \<open>e\<close>, the
  generator of the container yields \<^verbatim>\<open>EndJs(false)\<close> after what was yielded before, and
  throws what \<^verbatim>\<open>handleError\<close> makes of \<open>e\<close> and the cursor.  That is \<open>e\<close> with the cursor
  as its hidden position only if \<open>e\<close> is an object that has no hidden position yet and
  accepts the assignment; otherwise it is \<open>e\<close> unchanged.  In the main loop, when a
  function is pending and the item of the round is an \<^verbatim>\<open>EndJs\<close> with \<^verbatim>\<open>success = false\<close>,
  the loop goes on with no pending function and no held item, and no call has been
  made.
\<close>

theorem failed_region:
  "(run_blocks w 0 blocks = Some (ys, cursor, Throws e) \<longrightarrow>
      run_prog w (Prog c in_at_js True blocks) = Some (ys @ [EndJs False], Inl (handleError e cursor)))
   \<and> handleError e pos = (if is_object e \<and> errorPos e = None \<and> \<not> frozen e then e\<lparr>errorPos := Some pos\<rparr> else e)
   \<and> (ml_func st = Some f \<and> held st = Some (EndJs False, st') \<longrightarrow>
      mainLoop_from h st = mainLoop_from h (st'\<lparr>ml_func := None, ml_next := None\<rparr>)
      \<and> ml_calls (st'\<lparr>ml_func := None, ml_next := None\<rparr>) = ml_calls st)"
proof (intro conjI impI)
  assume "run_blocks w 0 blocks = Some (ys, cursor, Throws e)"
  then show "run_prog w (Prog c in_at_js True blocks) = Some (ys @ [EndJs False], Inl (handleError e cursor))"
    by simp
next
  show "handleError e pos = (if is_object e \<and> errorPos e = None \<and> \<not> frozen e then e\<lparr>errorPos := Some pos\<rparr> else e)"
    by (simp add: handleError_def setProp_def)
next
  assume a: "ml_func st = Some f \<and> held st = Some (EndJs False, st')"
  then have "mainLoop_from h st = mainLoop_from h st'" by (simp add: held_mainLoop)
  moreover have "ml_func st' = Some f" "ml_next st' = Some (EndJs False)"
    using a held_keeps[of st "EndJs False" st'] held_is_held[of st "EndJs False" st'] by simp_all
  ultimately show "mainLoop_from h st = mainLoop_from h (st'\<lparr>ml_func := None, ml_next := None\<rparr>)"
    by (simp add: failed_end_cancels)
  show "ml_calls (st'\<lparr>ml_func := None, ml_next := None\<rparr>) = ml_calls st"
    using a held_keeps[of st "EndJs False" st'] by simp
qed

text \<open>
  At the rule \<^verbatim>\<open>h1 { @js null.fail; }\<close>, whose fragment throws an error object when the
  cursor is 17, and at a stream that ends with \<^verbatim>\<open>EndJs(false)\<close> and this error while
  function 0 is pending.
\<close>

theorem failed_region_witness:
  "run_prog toy_world
     (Prog (OfNode (Rule (Some sample_source) empty_raws ''h1'' [at_js 5 ''null.fail''])) False True
        [(None, [AtJs (at_js 5 ''null.fail'') 4 17 (guest 5 True ''null.fail'') None])])
     = Some ([BeginJs (at_js 5 ''null.fail'') 4 17, EndJs False],
          Inl \<lparr>message = ''Cannot read properties of null'', is_object = True, frozen = False,
                errorPos = Some 17\<rparr>)
   \<and> mainLoop_from curried_rt
       ((ml_init ([EndJs False], Inl \<lparr>message = ''Cannot read properties of null'', is_object = True,
            frozen = False, errorPos = Some 17\<rparr>))\<lparr>ml_func := Some 0\<rparr>)
     = Some (Inl \<lparr>message = ''Cannot read properties of null'', is_object = True, frozen = False,
                errorPos = Some 17\<rparr>,
          \<lparr>ml_func = None, ml_next = None, ml_context = no_context, ml_stack = [],
           ml_iter = ([], Inl \<lparr>message = ''Cannot read properties of null'', is_object = True,
                frozen = False, errorPos = Some 17\<rparr>),
           ml_yielded = [], ml_calls = []\<rparr>)"
proof -
  let ?e = "\<lparr>message = ''Cannot read properties of null'', is_object = True, frozen = False,
                errorPos = None\<rparr>"
  let ?e' = "\<lparr>message = ''Cannot read properties of null'', is_object = True, frozen = False,
                errorPos = Some 17\<rparr>"
  let ?c = "OfNode (Rule (Some sample_source) empty_raws ''h1'' [at_js 5 ''null.fail''])"
  let ?blocks = "[(None, [AtJs (at_js 5 ''null.fail'') 4 17 (guest 5 True ''null.fail'') None])]"
  let ?ys = "[BeginJs (at_js 5 ''null.fail'') 4 17]"
  let ?st = "(ml_init ([EndJs False], Inl ?e'))\<lparr>ml_func := Some 0\<rparr>"
  let ?st' = "(ml_init ([], Inl ?e'))\<lparr>ml_func := Some 0, ml_next := Some (EndJs False)\<rparr>"
  note inst = failed_region[where w = toy_world and blocks = ?blocks and ys = ?ys and cursor = 17
      and e = ?e and c = ?c and in_at_js = False and pos = 17 and st = ?st and st' = ?st'
      and f = 0 and h = curried_rt]
  have h1: "run_blocks toy_world 0 ?blocks = Some (?ys, 17, Throws ?e)" by code_simp
  have h2: "ml_func ?st = Some 0 \<and> held ?st = Some (EndJs False, ?st')"
    by (simp add: held_def ml_init_def)
  have a: "run_prog toy_world (Prog ?c False True ?blocks) = Some (?ys @ [EndJs False], Inl (handleError ?e 17))"
    using inst h1 by blast
  have b: "handleError ?e 17 = ?e'" using inst by simp
  have "mainLoop_from curried_rt ?st = mainLoop_from curried_rt (?st'\<lparr>ml_func := None, ml_next := None\<rparr>)"
    using inst h2 by blast
  also have "\<dots> = Some (Inl ?e',
          \<lparr>ml_func = None, ml_next = None, ml_context = no_context, ml_stack = [],
           ml_iter = ([], Inl ?e'), ml_yielded = [], ml_calls = []\<rparr>)"
    by code_simp
  finally show ?thesis using a b by simp
qed

text \<open>
  Claim C3 as stated fails.  At the rule \<^verbatim>\<open>h1 { @js throw 'testfail'; }\<close> the value
  thrown is a string: it is thrown again as it is, without the cursor 17.  In
  \<^verbatim>\<open>@js const x = 1; h1 { @js null; }\<close> the error of the inner rule has the position 9 of
  the inner fragment when it reaches the outer container, whose cursor is 5: it keeps
  the position 9.
\<close>

theorem rethrown_without_cursor:
  "run_prog toy_world
     (Prog (OfNode (Rule (Some sample_source) empty_raws ''h1'' [at_js 5 (''throw '' @ [squote] @ ''testfail'' @ [squote])]))
        False True
        [(None, [AtJs (at_js 5 (''throw '' @ [squote] @ ''testfail'' @ [squote])) 4 17
                   (guest 5 False (''throw '' @ [squote] @ ''testfail'' @ [squote])) None])])
     = Some ([BeginJs (at_js 5 (''throw '' @ [squote] @ ''testfail'' @ [squote])) 4 17, EndJs False],
          Inl \<lparr>message = ''testfail'', is_object = False, frozen = False, errorPos = None\<rparr>)
   \<and> run_prog toy_world
     (Prog (OfRoot (Some sample_source) empty_raws
              [at_js 0 ''const x = 1'', Rule (Some sample_source) empty_raws ''h1'' [at_js 14 ''null'']])
        False True
        [(None,
          [AtJs (at_js 0 ''const x = 1'') 4 5 (guest 0 False ''const x = 1'') None,
           RuleCode (Rule (Some sample_source) empty_raws ''h1'' [at_js 14 ''null'']) None
             (Some (Prog (OfNode (Rule (Some sample_source) empty_raws ''h1'' [at_js 14 ''null''])) False True
                [(None, [AtJs (at_js 14 ''null'') 4 9 (guest 14 True ''null'') None])]))])])
     = Some ([BeginJs (at_js 0 ''const x = 1'') 4 5, EndJs True, EndJs False],
          Inl \<lparr>message = ''attempt to inject an invalid value: null'', is_object = True, frozen = False,
                errorPos = Some 9\<rparr>)"
  by code_simp

section \<open>An early exit from a block\<close>

lemma run_body_append:
  "run_body w cur pre = Some (ys, c, Completes) \<Longrightarrow>
   run_body w cur (pre @ ss) = after_block ys (run_body w c ss)"
proof (induction pre arbitrary: cur ys)
  case Nil
  then show ?case by (simp add: after_block_def split: option.splits)
next
  case (Cons p ps)
  from Cons.prems obtain ys1 c1 ys2 where
    p: "run_script w cur p = Some (ys1, c1, Completes)" and
    ps: "run_body w c1 ps = Some (ys2, c, Completes)" and ys: "ys = ys1 @ ys2"
    by (auto split: option.splits prod.splits outcome.splits)
  show ?case using p ys Cons.IH[OF ps]
    by (simp add: after_block_def split: option.splits)
qed

lemma run_body_returns:
  assumes "run_body w cur pre = Some (ys, c, Completes)" "run_script w c s = Some (zs, c', Returns)"
  shows "run_body w cur (pre @ s # post) = Some (ys @ zs, c', Returns)"
  using run_body_append[OF assms(1), of "s # post"] assms(2) by (simp add: after_block_def)

lemma run_blocks_no_return: "run_blocks w cur bs \<noteq> Some (ys, c, Returns)"
proof (induction bs arbitrary: cur ys)
  case Nil
  then show ?case by simp
next
  case (Cons b bs)
  show ?case using Cons.IH
    by (auto split: option.splits prod.splits outcome.splits)
qed

lemma run_script_returns: "run_script w cur s = Some (ys, c, Returns) \<Longrightarrow> is_AtJs s"
  by (cases "(w, cur, s)" rule: run_script.cases)
     (auto split: option.splits prod.splits outcome.splits sum.splits)

text \<open>
  Claim C6.  When an item of a block ends with \<^verbatim>\<open>return\<close> after the items before it have
  completed, the block ends there with what was yielded so far, whatever the items
  \<open>post\<close> after it are: fragments or nodes of the document, they are not run.  A block
  that ends with \<^verbatim>\<open>return\<close> is followed by the blocks after it exactly as a block that
  completes.  The blocks of a container never end with \<^verbatim>\<open>return\<close>; only a block-level
  fragment does, so that a rule or an at-rule with a \<^verbatim>\<open>return\<close> inside completes in the
  container around it; and after its blocks the generator of a container returns the
  raws of the container.
\<close>

theorem early_exit_ends_block:
  "(run_body w cur pre = Some (ys, c, Completes) \<and> run_script w c s = Some (zs, c', Returns) \<longrightarrow>
      run_body w cur (pre @ s # post) = Some (ys @ zs, c', Returns))
   \<and> (run_body w cur (snd b) = Some (ys, c, ending) \<and> (ending = Returns \<or> ending = Completes) \<longrightarrow>
      run_blocks w cur (b # bs) = after_block ys (run_blocks w c bs))
   \<and> run_blocks w cur bs \<noteq> Some (ys, c, Returns)
   \<and> (run_script w cur s = Some (ys, c, Returns) \<longrightarrow> is_AtJs s)
   \<and> (run_blocks w 0 bs = Some (ys, c, Completes) \<longrightarrow>
      run_prog w (Prog container in_at_js has_code bs)
        = Some (ys, Inr (raws_object (semicolon (container_raws container)))))"
proof (intro conjI impI)
  assume "run_body w cur pre = Some (ys, c, Completes) \<and> run_script w c s = Some (zs, c', Returns)"
  then show "run_body w cur (pre @ s # post) = Some (ys @ zs, c', Returns)"
    by (simp add: run_body_returns)
next
  assume "run_body w cur (snd b) = Some (ys, c, ending) \<and> (ending = Returns \<or> ending = Completes)"
  then show "run_blocks w cur (b # bs) = after_block ys (run_blocks w c bs)"
    by (auto simp add: after_block_def split: option.splits)
next
  show "run_blocks w cur bs \<noteq> Some (ys, c, Returns)" by (rule run_blocks_no_return)
next
  assume "run_script w cur s = Some (ys, c, Returns)"
  then show "is_AtJs s" by (rule run_script_returns)
next
  assume "run_blocks w 0 bs = Some (ys, c, Completes)"
  then show "run_prog w (Prog container in_at_js has_code bs)
        = Some (ys, Inr (raws_object (semicolon (container_raws container))))"
    by simp
qed

text \<open>
  At the rule \<^verbatim>\<open>samp\<close>: its first block has the children of \<^verbatim>\<open>1.css\<close> and ends at the
  \<^verbatim>\<open>return\<close>, before \<^verbatim>\<open>background-color\<close> and the second \<^verbatim>\<open>color\<close>; the block of the
  child of \<^verbatim>\<open>2.css\<close> is run.
\<close>

theorem early_exit_ends_block_witness:
  "compileContainer toy_compiler sample_context (OfNode samp) sample_cstate
     = (Inr (Some (Prog (OfNode samp) False True samp_blocks)),
        \<lparr>globalEnv = [(Some ''2.css'', [(''__filename'', JStr ''2.css''), (''loaded'', JNum 0)])],
         made = [Some ''2.css'']\<rparr>)
   \<and> run_body toy_world 0 (snd (hd samp_blocks))
     = Some ([Node (Decl (Some (in_file ''1.css'' 7)) empty_raws ''border'' ''thin''),
              BeginJs (at_js 20 ''({ color })'') 4 0, Plain [(''color'', JStr ''blue'')], EndJs True,
              BeginJs (at_js 40 ''return'') 4 0], 0, Returns)
   \<and> run_prog toy_world (Prog (OfNode samp) False True samp_blocks)
     = Some ([Node (Decl (Some (in_file ''1.css'' 7)) empty_raws ''border'' ''thin''),
              BeginJs (at_js 20 ''({ color })'') 4 0, Plain [(''color'', JStr ''blue'')], EndJs True,
              BeginJs (at_js 40 ''return'') 4 0,
              Node (Decl (Some (in_file ''2.css'' 0)) empty_raws ''margin'' ''0'')],
             Inr (Plain []))
   \<and> is_AtJs (AtJs (at_js 40 ''return'') 4 0 (guest 40 False ''return'') None)"
proof -
  let ?d1 = "Decl (Some (in_file ''1.css'' 7)) empty_raws ''border'' ''thin''"
  let ?d2 = "Decl (Some (in_file ''1.css'' 50)) empty_raws ''background-color'' ''white''"
  let ?d3 = "Decl (Some (in_file ''2.css'' 0)) empty_raws ''margin'' ''0''"
  let ?a1 = "AtJs (at_js 20 ''({ color })'') 4 0 (guest 20 True ''({ color })'') None"
  let ?a2 = "AtJs (at_js 40 ''return'') 4 0 (guest 40 False ''return'') None"
  let ?a3 = "AtJs (at_js 80 ''({ color })'') 4 0 (guest 80 True ''({ color })'') None"
  let ?ys = "[Node ?d1, BeginJs (at_js 20 ''({ color })'') 4 0, Plain [(''color'', JStr ''blue'')], EndJs True]"
  let ?zs = "[BeginJs (at_js 40 ''return'') 4 0]"
  let ?b2 = "(Some [(''__filename'', JStr ''2.css''), (''loaded'', JNum 0)], [Child ?d3])"
  let ?out = "?ys @ ?zs @ [Node ?d3]"
  note inst = early_exit_ends_block[where w = toy_world and cur = 0 and pre = "[Child ?d1, ?a1]"
      and ys = ?ys and c = 0 and s = ?a2 and zs = ?zs and c' = 0 and post = "[Child ?d2, ?a3]"]
  note inst2 = early_exit_ends_block[where w = toy_world and cur = 0 and b = "hd samp_blocks"
      and ys = "?ys @ ?zs" and c = 0 and ending = Returns and bs = "[?b2]"]
  note inst3 = early_exit_ends_block[where w = toy_world and cur = 0 and s = ?a2
      and ys = ?zs and c = 0]
  note inst4 = early_exit_ends_block[where w = toy_world and bs = samp_blocks
      and ys = ?out and c = 0 and container = "OfNode samp" and in_at_js = False and has_code = True]
  have c: "compileContainer toy_compiler sample_context (OfNode samp) sample_cstate
     = (Inr (Some (Prog (OfNode samp) False True samp_blocks)),
        \<lparr>globalEnv = [(Some ''2.css'', [(''__filename'', JStr ''2.css''), (''loaded'', JNum 0)])],
         made = [Some ''2.css'']\<rparr>)"
    by code_simp
  have h1: "run_body toy_world 0 [Child ?d1, ?a1] = Some (?ys, 0, Completes)
      \<and> run_script toy_world 0 ?a2 = Some (?zs, 0, Returns)"
    by code_simp
  have body: "run_body toy_world 0 ([Child ?d1, ?a1] @ ?a2 # [Child ?d2, ?a3]) = Some (?ys @ ?zs, 0, Returns)"
    using inst h1 by blast
  have first: "snd (hd samp_blocks) = [Child ?d1, ?a1] @ ?a2 # [Child ?d2, ?a3]"
    by (simp add: samp_blocks_def)
  have blocks: "samp_blocks = hd samp_blocks # [?b2]"
    by (simp add: samp_blocks_def)
  have "run_blocks toy_world 0 (hd samp_blocks # [?b2]) = after_block (?ys @ ?zs) (run_blocks toy_world 0 [?b2])"
    using inst2 body first by simp
  also have "\<dots> = Some (?out, 0, Completes)" by code_simp
  finally have all: "run_blocks toy_world 0 samp_blocks = Some (?out, 0, Completes)"
    using blocks by simp
  have prog: "run_prog toy_world (Prog (OfNode samp) False True samp_blocks)
      = Some (?out, Inr (raws_object (semicolon (container_raws (OfNode samp)))))"
    using inst4 all by blast
  have raws: "raws_object (semicolon (container_raws (OfNode samp))) = Plain []" by code_simp
  have frag: "is_AtJs ?a2" using inst3 h1 by blast
  show ?thesis using c body first prog raws frag by simp
qed

section \<open>The global bindings of a scope\<close>

lemma extends_refl: "extends st st"
  by (simp add: extends_def)

lemma extends_trans: "extends a b \<Longrightarrow> extends b c \<Longrightarrow> extends a c"
  by (auto simp add: extends_def)

lemma keeps_cache_refl: "keeps_cache st st"
  by (simp add: keeps_cache_def extends_refl)

lemma keeps_cache_trans: "keeps_cache a b \<Longrightarrow> keeps_cache b c \<Longrightarrow> keeps_cache a c"
  by (auto simp add: keeps_cache_def intro: extends_trans)

lemma loadGlobals_hit:
  "map_of (globalEnv st) (globalScope g) = Some binds \<Longrightarrow> loadGlobals h g st = (binds, st)"
  by (simp add: loadGlobals_def)

lemma loadGlobals_miss:
  "map_of (globalEnv st) (globalScope g) = None \<Longrightarrow>
   loadGlobals h g st =
     (globals h (globalScope g) (globalEnv st),
      \<lparr>globalEnv = globalEnv st @ [(globalScope g, globals h (globalScope g) (globalEnv st))],
       made = made st @ [globalScope g]\<rparr>)"
  by (simp add: loadGlobals_def Let_def)

lemma loadGlobals_keeps: "keeps_cache st (snd (loadGlobals h g st))"
proof (cases "map_of (globalEnv st) (globalScope g)")
  case None
  then have "globalScope g \<notin> fst ` set (globalEnv st)" by (simp add: map_of_eq_None_iff)
  then have "cached st \<Longrightarrow> globalScope g \<notin> set (made st)"
    unfolding cached_def by (metis set_map)
  then show ?thesis using None
    by (auto simp add: keeps_cache_def loadGlobals_miss cached_def extends_def)
next
  case (Some binds)
  then show ?thesis by (simp add: loadGlobals_hit keeps_cache_refl)
qed

lemma compile_keeps:
  "keeps_cache st (snd (compileContainerChildren h cx fin cur nodes st))"
  "keeps_cache st' (snd (compileNode h' cx' n st'))"
  "keeps_cache st'' (snd (compileContainer h'' cx'' c st''))"
proof (induction h cx fin cur nodes st and h' cx' n st' and h'' cx'' c st''
    rule: compileContainerChildren_compileNode_compileContainer.induct)
  case (1 h cx fin cur st)
  then show ?case by (simp add: keeps_cache_refl)
next
  case (2 h cx fin cur n ns st)
  show ?case
  proof (cases "globalScope cx \<noteq> node_file n")
    case True
    let ?cx = "cx\<lparr>globalScope := node_file n\<rparr>"
    obtain binds st1 where l: "loadGlobals h ?cx st = (binds, st1)" by (cases "loadGlobals h ?cx st")
    have k1: "keeps_cache st st1" using loadGlobals_keeps[of st h ?cx] l by simp
    have k2: "keeps_cache st1 (snd (compileNode h ?cx n st1))"
      using "2.IH"(1)[OF True refl refl l[symmetric]] .
    show ?thesis
    proof (cases "compileNode h ?cx n st1")
      case (Pair r st2)
      show ?thesis
      proof (cases r)
        case (Inl e)
        then show ?thesis using True l Pair k1 k2 by (auto intro: keeps_cache_trans)
      next
        case (Inr item)
        have k3: "keeps_cache st2 (snd (compileContainerChildren h ?cx (fin @ [cur]) (Some binds, [item]) ns st2))"
          proof (rule "2.IH"(2)[OF True refl refl l[symmetric] _ refl])
          show "(Inr item, st2) = compileNode h ?cx n st1" using Pair Inr by simp
        qed
        show ?thesis using True l Pair Inr k1 k2 k3 by (auto intro: keeps_cache_trans)
      qed
    qed
  next
    case False
    have k2: "keeps_cache st (snd (compileNode h cx n st))" using "2.IH"(3)[OF False] .
    show ?thesis
    proof (cases "compileNode h cx n st")
      case (Pair r st2)
      show ?thesis
      proof (cases r)
        case (Inl e)
        then show ?thesis using False Pair k2 by auto
      next
        case (Inr item)
        have k3: "keeps_cache st2 (snd (compileContainerChildren h cx fin (fst cur, snd cur @ [item]) ns st2))"
          proof (rule "2.IH"(4)[OF False _ refl])
          show "(Inr item, st2) = compileNode h cx n st" using Pair Inr by simp
        qed
        show ?thesis using False Pair Inr k2 k3 by (auto intro: keeps_cache_trans)
      qed
    qed
  qed
next
  case (3 h cx s r name params nodes st)
  show ?case
  proof (cases "name = ''js''")
    case True
    show ?thesis
    proof (cases "nodes = None")
      case True
      with \<open>name = ''js''\<close> show ?thesis
        by (auto simp add: Let_def keeps_cache_refl split: sum.splits)
    next
      case False
      show ?thesis
      proof (cases "userCode (js h) s (int (paramsOffset (AtRule s r name params nodes)))
            (params @ atRuleBetween (AtRule s r name params nodes)) (''({'' @ [newline] @ ''})'')")
        case (Inl e)
        then show ?thesis using True False by (simp add: Let_def keeps_cache_refl)
      next
        case (Inr uc)
        have "keeps_cache st (snd (compileContainer h (cx\<lparr>inAtJs := True\<rparr>) (OfNode (AtRule s r name params nodes)) st))"
          proof (rule "3.IH"(1)[OF True refl refl refl _ False])
          show "userCode (js h) s (int (paramsOffset (AtRule s r name params nodes)))
            (params @ atRuleBetween (AtRule s r name params nodes))
            (if nodes \<noteq> None then ''({'' @ [newline] @ ''})'' else []) = Inr uc"
            using Inr False by simp
        qed
        then show ?thesis using True False Inr
          by (auto simp add: Let_def split: prod.splits sum.splits)
      qed
    qed
  next
    case False
    show ?thesis
    proof (cases "checkInvalidAtJs params s (int (paramsOffset (AtRule s r name params nodes)))")
      case (Inl e)
      then show ?thesis using False by (simp add: keeps_cache_refl)
    next
      case (Inr u)
      show ?thesis
      proof (cases "nodes = None")
        case True
        then show ?thesis using False Inr by (simp add: keeps_cache_refl)
      next
        case nn: False
        have "keeps_cache st (snd (compileContainer h cx (OfNode (AtRule s r name params nodes)) st))"
          using "3.IH"(2)[OF False Inr nn] by simp
        then show ?thesis using False Inr nn
          by (auto split: prod.splits sum.splits option.splits)
      qed
    qed
  qed
next
  case (4 h cx s r selector nodes st)
  show ?case
  proof (cases "compileSelector h (Rule s r selector nodes)")
    case (Inl e)
    then show ?thesis by (simp add: keeps_cache_refl)
  next
    case (Inr selectorCode)
    have "keeps_cache st (snd (compileContainer h cx (OfNode (Rule s r selector nodes)) st))"
      using "4.IH"[OF Inr] by simp
    then show ?thesis using Inr by (auto split: prod.splits sum.splits)
  qed
next
  case (5 h cx s r p v st)
  then show ?case by (auto simp add: Let_def keeps_cache_refl split: sum.splits option.splits)
next
  case (6 h cx s r t st)
  then show ?case by (simp add: keeps_cache_refl)
next
  case (7 h cx c st)
  then show ?case by (auto split: prod.splits sum.splits)
qed

lemma first_node_of_scope:
  assumes "globalScope cx \<noteq> node_file n"
    and "loadGlobals h (cx\<lparr>globalScope := node_file n\<rparr>) st = (binds, loaded)"
  shows "compileContainerChildren h cx fin cur (n # ns) st =
     (case compileNode h (cx\<lparr>globalScope := node_file n\<rparr>) n loaded of
        (Inl e, st2) \<Rightarrow> (Inl e, st2)
      | (Inr item, st2) \<Rightarrow>
          compileContainerChildren h (cx\<lparr>globalScope := node_file n\<rparr>) (fin @ [cur])
            (Some binds, [item]) ns st2)"
  using assms by (simp add: Let_def)

lemma next_node_of_scope:
  assumes "globalScope cx = node_file n"
  shows "compileContainerChildren h cx fin cur (n # ns) st =
     (case compileNode h cx n st of
        (Inl e, st2) \<Rightarrow> (Inl e, st2)
      | (Inr item, st2) \<Rightarrow> compileContainerChildren h cx fin (fst cur, snd cur @ [item]) ns st2)"
  using assms by simp

lemma loadGlobals_made:
  assumes "cached st"
  shows "globalScope g \<in> set (made (snd (loadGlobals h g st)))"
proof (cases "map_of (globalEnv st) (globalScope g)")
  case None
  then show ?thesis by (simp add: loadGlobals_miss)
next
  case (Some binds)
  then have "globalScope g \<in> fst ` set (globalEnv st)" by (metis map_of_eq_None_iff option.distinct(1))
  then have "globalScope g \<in> set (made st)" using assms unfolding cached_def by (metis set_map)
  then show ?thesis using Some by (simp add: loadGlobals_hit)
qed

lemma extends_made: "extends st st' \<Longrightarrow> set (made st) \<subseteq> set (made st')"
  by (auto simp add: extends_def prefix_def)

lemma children_extend:
  "cached st \<Longrightarrow> cached (snd (compileContainerChildren h cx fin cur nodes st))
     \<and> extends st (snd (compileContainerChildren h cx fin cur nodes st))"
  using compile_keeps(1)[of st h cx fin cur nodes] by (simp add: keeps_cache_def)

lemma node_extends:
  "cached st \<Longrightarrow> cached (snd (compileNode h cx n st)) \<and> extends st (snd (compileNode h cx n st))"
  using compile_keeps(2)[of st h cx n] by (simp add: keeps_cache_def)

lemma new_scope_is_made:
  assumes c: "cached st" and d: "globalScope cx \<noteq> node_file n"
  shows "node_file n \<in> set (made (snd (compileContainerChildren h cx fin cur (n # ns) st)))"
proof -
  let ?cx = "cx\<lparr>globalScope := node_file n\<rparr>"
  obtain binds st1 where l: "loadGlobals h ?cx st = (binds, st1)" by (cases "loadGlobals h ?cx st")
  have in1: "node_file n \<in> set (made st1)" using loadGlobals_made[OF c, of ?cx h] l by simp
  have c1: "cached st1" using loadGlobals_keeps[of st h ?cx] l c by (simp add: keeps_cache_def)
  obtain r st2 where p: "compileNode h ?cx n st1 = (r, st2)" by (cases "compileNode h ?cx n st1")
  have k2: "cached st2 \<and> extends st1 st2" using node_extends[OF c1, of h ?cx n] p by simp
  then have in2: "node_file n \<in> set (made st2)" using in1 extends_made by blast
  show ?thesis
  proof (cases r)
    case (Inl e)
    then show ?thesis using first_node_of_scope[OF d l, of fin cur ns] p in2 by simp
  next
    case (Inr item)
    have "extends st2 (snd (compileContainerChildren h ?cx (fin @ [cur]) (Some binds, [item]) ns st2))"
      using children_extend k2 by blast
    then show ?thesis using first_node_of_scope[OF d l, of fin cur ns] p Inr in2 extends_made by fastforce
  qed
qed

lemma scopes_are_made:
  "cached st \<Longrightarrow> compileContainerChildren h cx fin cur nodes st = (Inr blocks, st') \<Longrightarrow>
   n \<in> set nodes \<Longrightarrow> node_file n = globalScope cx \<or> node_file n \<in> set (made st')"
proof (induction nodes arbitrary: cx fin cur st)
  case Nil
  then show ?case by simp
next
  case (Cons m ms)
  show ?case
  proof (cases "globalScope cx = node_file m")
    case True
    obtain r st2 where p: "compileNode h cx m st = (r, st2)" by (cases "compileNode h cx m st")
    from Cons.prems(2) True p obtain item where r: "r = Inr item"
      and rest: "compileContainerChildren h cx fin (fst cur, snd cur @ [item]) ms st2 = (Inr blocks, st')"
      by (cases r) (simp_all add: next_node_of_scope)
    have c2: "cached st2" using node_extends[OF Cons.prems(1), of h cx m] p by simp
    show ?thesis
    proof (cases "n = m")
      case True
      with \<open>globalScope cx = node_file m\<close> show ?thesis by simp
    next
      case False
      then have "n \<in> set ms" using Cons.prems(3) by simp
      then show ?thesis using Cons.IH[OF c2 rest] by simp
    qed
  next
    case False
    let ?cx = "cx\<lparr>globalScope := node_file m\<rparr>"
    obtain binds st1 where l: "loadGlobals h ?cx st = (binds, st1)" by (cases "loadGlobals h ?cx st")
    have c1: "cached st1" using loadGlobals_keeps[of st h ?cx] l Cons.prems(1) by (simp add: keeps_cache_def)
    have d: "globalScope cx \<noteq> node_file m" using False by simp
    obtain r st2 where p: "compileNode h ?cx m st1 = (r, st2)" by (cases "compileNode h ?cx m st1")
    have "(case (r, st2) of
             (Inl e, st2) \<Rightarrow> (Inl e, st2)
           | (Inr item, st2) \<Rightarrow>
               compileContainerChildren h ?cx (fin @ [cur]) (Some binds, [item]) ms st2) = (Inr blocks, st')"
      using Cons.prems(2) unfolding first_node_of_scope[OF d l] p .
    then obtain item where r: "r = Inr item"
      and rest: "compileContainerChildren h ?cx (fin @ [cur]) (Some binds, [item]) ms st2 = (Inr blocks, st')"
      by (cases r) simp_all
    have c2: "cached st2" using node_extends[OF c1, of h ?cx m] p by simp
    have made_m: "node_file m \<in> set (made st')"
      using new_scope_is_made[OF Cons.prems(1) d, of h fin cur ms] Cons.prems(2) by simp
    show ?thesis
    proof (cases "n = m")
      case True
      then show ?thesis using made_m by simp
    next
      case False
      then have "n \<in> set ms" using Cons.prems(3) by simp
      then have "node_file n = globalScope ?cx \<or> node_file n \<in> set (made st')"
        using Cons.IH[OF c2 rest] by simp
      then show ?thesis using made_m by auto
    qed
  qed
qed

text \<open>
  Claim C5, amended.  At the end of a compilation the maker of global bindings has been
  called at most once for a scope, and the scopes of the map are those for which it was
  called; from a sound state the children of a container are compiled to a sound state
  that extends it.  \<^verbatim>\<open>loadGlobals\<close> returns the bindings of the map without a call when
  the scope has an entry, and calls the maker and adds the entry when it has none; an
  entry of the map is still there, with the same bindings, in every state that extends
  the state.  In the loop over the children, a child whose file is not the scope of the
  context has \<^verbatim>\<open>loadGlobals\<close> run for its file before the child is looked at, whatever
  the child is, and starts a block with these bindings; a child whose file is the scope
  of the context is compiled in the current block without \<^verbatim>\<open>loadGlobals\<close>.  So after
  such a child the maker has been called for its file, also when the compilation stops
  with an error later; and after a compilation that succeeds the maker has been called
  for the file of every child of the root, the file with the empty name apart.
\<close>

theorem globals_made_once:
  "distinct (made (snd (compile h root)))
   \<and> map fst (globalEnv (snd (compile h root))) = made (snd (compile h root))
   \<and> (cached st \<longrightarrow>
        cached (snd (compileContainerChildren h cx fin cur nodes st))
        \<and> extends st (snd (compileContainerChildren h cx fin cur nodes st)))
   \<and> (map_of (globalEnv st) (globalScope g) = Some binds \<longrightarrow> loadGlobals h g st = (binds, st))
   \<and> (map_of (globalEnv st) (globalScope g) = None \<longrightarrow>
        loadGlobals h g st =
          (globals h (globalScope g) (globalEnv st),
           \<lparr>globalEnv = globalEnv st @ [(globalScope g, globals h (globalScope g) (globalEnv st))],
            made = made st @ [globalScope g]\<rparr>))
   \<and> (extends st st' \<and> map_of (globalEnv st) k = Some binds \<longrightarrow> map_of (globalEnv st') k = Some binds)
   \<and> (globalScope cx \<noteq> node_file n \<and> loadGlobals h (cx\<lparr>globalScope := node_file n\<rparr>) st = (binds, loaded) \<longrightarrow>
        compileContainerChildren h cx fin cur (n # ns) st =
          (case compileNode h (cx\<lparr>globalScope := node_file n\<rparr>) n loaded of
             (Inl e, st2) \<Rightarrow> (Inl e, st2)
           | (Inr item, st2) \<Rightarrow>
               compileContainerChildren h (cx\<lparr>globalScope := node_file n\<rparr>) (fin @ [cur])
                 (Some binds, [item]) ns st2))
   \<and> (globalScope cx = node_file n \<longrightarrow>
        compileContainerChildren h cx fin cur (n # ns) st =
          (case compileNode h cx n st of
             (Inl e, st2) \<Rightarrow> (Inl e, st2)
           | (Inr item, st2) \<Rightarrow> compileContainerChildren h cx fin (fst cur, snd cur @ [item]) ns st2))
   \<and> (cached st \<and> globalScope cx \<noteq> node_file n \<longrightarrow>
        node_file n \<in> set (made (snd (compileContainerChildren h cx fin cur (n # ns) st))))
   \<and> (compile h root = (Inr p, st') \<and> n \<in> set (container_nodes root) \<and> node_file n \<noteq> Some [] \<longrightarrow>
        node_file n \<in> set (made st'))"
proof -
  have empty: "cached \<lparr>globalEnv = [], made = []\<rparr>" by (simp add: cached_def)
  have "keeps_cache \<lparr>globalEnv = [], made = []\<rparr> (snd (compile h root))"
    unfolding compile_def by (rule compile_keeps(3))
  then have whole: "cached (snd (compile h root))" using empty by (simp add: keeps_cache_def)
  have d: "distinct (made (snd (compile h root)))"
    and m: "map fst (globalEnv (snd (compile h root))) = made (snd (compile h root))"
    using whole by (simp_all add: cached_def)
  have kept: "extends st st' \<and> map_of (globalEnv st) k = Some binds \<longrightarrow> map_of (globalEnv st') k = Some binds"
    by (auto simp add: extends_def prefix_def map_add_Some_iff)
  have part: "cached st \<longrightarrow>
        cached (snd (compileContainerChildren h cx fin cur nodes st))
        \<and> extends st (snd (compileContainerChildren h cx fin cur nodes st))"
    using children_extend by blast
  have hit: "map_of (globalEnv st) (globalScope g) = Some binds \<longrightarrow> loadGlobals h g st = (binds, st)"
    using loadGlobals_hit[of st g binds h] by blast
  have miss: "map_of (globalEnv st) (globalScope g) = None \<longrightarrow>
        loadGlobals h g st =
          (globals h (globalScope g) (globalEnv st),
           \<lparr>globalEnv = globalEnv st @ [(globalScope g, globals h (globalScope g) (globalEnv st))],
            made = made st @ [globalScope g]\<rparr>)"
    using loadGlobals_miss[of st g h] by blast
  have trigger: "globalScope cx \<noteq> node_file n \<and> loadGlobals h (cx\<lparr>globalScope := node_file n\<rparr>) st = (binds, loaded) \<longrightarrow>
        compileContainerChildren h cx fin cur (n # ns) st =
          (case compileNode h (cx\<lparr>globalScope := node_file n\<rparr>) n loaded of
             (Inl e, st2) \<Rightarrow> (Inl e, st2)
           | (Inr item, st2) \<Rightarrow>
               compileContainerChildren h (cx\<lparr>globalScope := node_file n\<rparr>) (fin @ [cur])
                 (Some binds, [item]) ns st2)"
    using first_node_of_scope[of cx n h st binds loaded fin cur ns] by blast
  have same: "globalScope cx = node_file n \<longrightarrow>
        compileContainerChildren h cx fin cur (n # ns) st =
          (case compileNode h cx n st of
             (Inl e, st2) \<Rightarrow> (Inl e, st2)
           | (Inr item, st2) \<Rightarrow> compileContainerChildren h cx fin (fst cur, snd cur @ [item]) ns st2)"
    using next_node_of_scope[of cx n h fin cur ns st] by blast
  have new: "cached st \<and> globalScope cx \<noteq> node_file n \<longrightarrow>
        node_file n \<in> set (made (snd (compileContainerChildren h cx fin cur (n # ns) st)))"
    using new_scope_is_made[of st cx n h fin cur ns] by blast
  have all: "compile h root = (Inr p, st') \<and> n \<in> set (container_nodes root) \<and> node_file n \<noteq> Some [] \<longrightarrow>
        node_file n \<in> set (made st')"
  proof
    assume a: "compile h root = (Inr p, st') \<and> n \<in> set (container_nodes root) \<and> node_file n \<noteq> Some []"
    let ?cx = "\<lparr>globalScope = Some [], inAtJs = False\<rparr>"
    let ?st = "\<lparr>globalEnv = [], made = []\<rparr>"
    from a obtain blocks where
      b: "compileContainerChildren h ?cx [] (None, []) (container_nodes root) ?st = (Inr blocks, st')"
      by (auto simp add: compile_def split: prod.splits sum.splits)
    show "node_file n \<in> set (made st')"
      using scopes_are_made[OF empty b, of n] a by simp
  qed
  show ?thesis
    by (intro conjI) (rule d, rule m, rule part, rule hit, rule miss, rule kept, rule trigger, rule same,
      rule new, rule all)
qed

text \<open>
  At a root whose three nodes are of \<^verbatim>\<open>1.css\<close>, \<^verbatim>\<open>2.css\<close> and \<^verbatim>\<open>1.css\<close>: two calls, and the
  third block has the bindings that were made for the first.
\<close>

theorem globals_made_once_witness:
  "compileContainerChildren toy_compiler \<lparr>globalScope = Some [], inAtJs = False\<rparr> [] (None, [])
       three_parts sample_cstate
     = (Inr [(None, []),
             (Some [(''__filename'', JStr ''1.css''), (''loaded'', JNum 0)],
              [AtJs (at_js 0 ''const a = 1'') 4 0 (guest 0 False ''const a = 1'') None]),
             (Some [(''__filename'', JStr ''2.css''), (''loaded'', JNum 1)],
              [Child (Decl (Some (in_file ''2.css'' 0)) empty_raws ''margin'' ''0'')]),
             (Some [(''__filename'', JStr ''1.css''), (''loaded'', JNum 0)],
              [AtJs (at_js 30 ''const c = 3'') 4 0 (guest 30 False ''const c = 3'') None])],
        \<lparr>globalEnv = [(Some ''1.css'', [(''__filename'', JStr ''1.css''), (''loaded'', JNum 0)]),
                      (Some ''2.css'', [(''__filename'', JStr ''2.css''), (''loaded'', JNum 1)])],
         made = [Some ''1.css'', Some ''2.css'']\<rparr>)
   \<and> compileContainerChildren toy_compiler \<lparr>globalScope = Some [], inAtJs = False\<rparr> [] (None, [])
       three_parts sample_cstate
     = compileContainerChildren toy_compiler \<lparr>globalScope = Some ''1.css'', inAtJs = False\<rparr> [(None, [])]
         (Some [(''__filename'', JStr ''1.css''), (''loaded'', JNum 0)],
          [AtJs (at_js 0 ''const a = 1'') 4 0 (guest 0 False ''const a = 1'') None])
         (tl three_parts)
         \<lparr>globalEnv = [(Some ''1.css'', [(''__filename'', JStr ''1.css''), (''loaded'', JNum 0)])],
          made = [Some ''1.css'']\<rparr>
   \<and> compileContainerChildren toy_compiler \<lparr>globalScope = Some ''1.css'', inAtJs = False\<rparr> [] (None, [])
       [at_js 30 ''const c = 3''] sample_cstate
     = (Inr [(None, [AtJs (at_js 30 ''const c = 3'') 4 0 (guest 30 False ''const c = 3'') None])],
        sample_cstate)
   \<and> distinct (made (snd (compile toy_compiler (OfRoot None empty_raws three_parts))))
   \<and> Some ''1.css'' \<in> set (made (snd (compileContainerChildren toy_compiler
         \<lparr>globalScope = Some [], inAtJs = False\<rparr> [] (None, []) three_parts sample_cstate)))
   \<and> Some ''2.css'' \<in> set [Some ''1.css'', Some ''2.css'']
   \<and> cached \<lparr>globalEnv = [(Some ''1.css'', [(''__filename'', JStr ''1.css''), (''loaded'', JNum 0)]),
                      (Some ''2.css'', [(''__filename'', JStr ''2.css''), (''loaded'', JNum 1)])],
         made = [Some ''1.css'', Some ''2.css'']\<rparr>
   \<and> loadGlobals toy_compiler \<lparr>globalScope = Some ''1.css'', inAtJs = False\<rparr> sample_cstate
     = ([(''__filename'', JStr ''1.css''), (''loaded'', JNum 0)],
        \<lparr>globalEnv = [(Some ''1.css'', [(''__filename'', JStr ''1.css''), (''loaded'', JNum 0)])],
         made = [Some ''1.css'']\<rparr>)
   \<and> loadGlobals toy_compiler \<lparr>globalScope = Some ''1.css'', inAtJs = False\<rparr>
       \<lparr>globalEnv = [(Some ''1.css'', [(''__filename'', JStr ''1.css''), (''loaded'', JNum 0)]),
                      (Some ''2.css'', [(''__filename'', JStr ''2.css''), (''loaded'', JNum 1)])],
         made = [Some ''1.css'', Some ''2.css'']\<rparr>
     = ([(''__filename'', JStr ''1.css''), (''loaded'', JNum 0)],
        \<lparr>globalEnv = [(Some ''1.css'', [(''__filename'', JStr ''1.css''), (''loaded'', JNum 0)]),
                      (Some ''2.css'', [(''__filename'', JStr ''2.css''), (''loaded'', JNum 1)])],
         made = [Some ''1.css'', Some ''2.css'']\<rparr>)"
proof -
  let ?b1 = "[(''__filename'', JStr ''1.css''), (''loaded'', JNum 0)]"
  let ?b2 = "[(''__filename'', JStr ''2.css''), (''loaded'', JNum 1)]"
  let ?st1 = "\<lparr>globalEnv = [(Some ''1.css'', ?b1)], made = [Some ''1.css'']\<rparr>"
  let ?st2 = "\<lparr>globalEnv = [(Some ''1.css'', ?b1), (Some ''2.css'', ?b2)], made = [Some ''1.css'', Some ''2.css'']\<rparr>"
  let ?g = "\<lparr>globalScope = Some ''1.css'', inAtJs = False\<rparr>"
  let ?cx = "\<lparr>globalScope = Some [], inAtJs = False\<rparr>"
  let ?n = "at_js 0 ''const a = 1''"
  let ?d = "Decl (Some (in_file ''2.css'' 0)) empty_raws ''margin'' ''0''"
  let ?m = "at_js 30 ''const c = 3''"
  let ?root = "OfRoot None empty_raws three_parts"
  let ?blocks = "[(None, []),
             (Some ?b1, [AtJs (at_js 0 ''const a = 1'') 4 0 (guest 0 False ''const a = 1'') None]),
             (Some ?b2, [Child ?d]),
             (Some ?b1, [AtJs (at_js 30 ''const c = 3'') 4 0 (guest 30 False ''const c = 3'') None])]"
  note inst0 = globals_made_once[where h = toy_compiler and root = ?root
      and st = sample_cstate and cx = ?cx and fin = "[]" and cur = "(None, [])" and nodes = three_parts
      and g = ?g and n = ?n and ns = "tl three_parts" and binds = ?b1 and loaded = ?st1]
  note inst1 = globals_made_once[where h = toy_compiler and st = ?st1 and st' = ?st2 and g = ?g
      and k = "Some ''1.css''" and binds = ?b1]
  note inst2 = globals_made_once[where h = toy_compiler and st = ?st2 and g = ?g and binds = ?b1]
  note inst4 = globals_made_once[where h = toy_compiler and cx = ?g and n = ?m and st = sample_cstate
      and fin = "[]" and cur = "(None, [])" and ns = "[]"]
  note inst5 = globals_made_once[where h = toy_compiler and root = ?root and n = ?d and st' = ?st2
      and p = "Some (Prog ?root False True (tl ?blocks))"]
  have parts: "three_parts = ?n # tl three_parts" by (simp add: three_parts_def)
  have run: "compileContainerChildren toy_compiler ?cx [] (None, []) three_parts sample_cstate
     = (Inr ?blocks, ?st2)"
    by code_simp
  have h0: "cached sample_cstate" by (simp add: cached_def sample_cstate_def)
  have "cached (snd (compileContainerChildren toy_compiler ?cx [] (None, []) three_parts sample_cstate))"
    using inst0 h0 by blast
  then have c2: "cached ?st2" unfolding run by simp
  have d: "distinct (made (snd (compile toy_compiler ?root)))"
    using inst0 by blast
  have miss: "map_of (globalEnv sample_cstate) (globalScope ?g) = None" by (simp add: sample_cstate_def)
  have l0: "loadGlobals toy_compiler ?g sample_cstate
      = (globals toy_compiler (globalScope ?g) (globalEnv sample_cstate),
         \<lparr>globalEnv = globalEnv sample_cstate
            @ [(globalScope ?g, globals toy_compiler (globalScope ?g) (globalEnv sample_cstate))],
          made = made sample_cstate @ [globalScope ?g]\<rparr>)"
    using inst0 miss by blast
  have l0': "loadGlobals toy_compiler ?g sample_cstate = (?b1, ?st1)"
    unfolding l0 by (simp add: sample_cstate_def toy_compiler_def toy_globals_def)
  have first: "extends ?st1 ?st2 \<and> map_of (globalEnv ?st1) (Some ''1.css'') = Some ?b1"
    by (simp add: extends_def)
  have hit: "map_of (globalEnv ?st2) (Some ''1.css'') = Some ?b1" using inst1 first by blast
  have l2: "loadGlobals toy_compiler ?g ?st2 = (?b1, ?st2)"
    using inst2 hit by simp
  have scope: "?cx\<lparr>globalScope := node_file ?n\<rparr> = ?g" by (simp add: node_file_def at_js_def)
  have trig0: "globalScope ?cx \<noteq> node_file ?n
      \<and> loadGlobals toy_compiler (?cx\<lparr>globalScope := node_file ?n\<rparr>) sample_cstate = (?b1, ?st1)"
    using l0' by (simp add: node_file_def at_js_def)
  have "compileContainerChildren toy_compiler ?cx [] (None, []) (?n # tl three_parts) sample_cstate =
          (case compileNode toy_compiler (?cx\<lparr>globalScope := node_file ?n\<rparr>) ?n ?st1 of
             (Inl e, st2) \<Rightarrow> (Inl e, st2)
           | (Inr item, st2) \<Rightarrow>
               compileContainerChildren toy_compiler (?cx\<lparr>globalScope := node_file ?n\<rparr>)
                 ([] @ [(None, [])]) (Some ?b1, [item]) (tl three_parts) st2)"
    using inst0 trig0 by blast
  also have "?cx\<lparr>globalScope := node_file ?n\<rparr> = ?g" by (rule scope)
  also have "compileNode toy_compiler ?g ?n ?st1
      = (Inr (AtJs (at_js 0 ''const a = 1'') 4 0 (guest 0 False ''const a = 1'') None), ?st1)"
    by code_simp
  finally have trig: "compileContainerChildren toy_compiler ?cx [] (None, []) three_parts sample_cstate
     = compileContainerChildren toy_compiler ?g [(None, [])]
         (Some ?b1, [AtJs (at_js 0 ''const a = 1'') 4 0 (guest 0 False ''const a = 1'') None])
         (tl three_parts) ?st1"
    using parts by simp
  have scope4: "globalScope ?g = node_file ?m" by (simp add: node_file_def at_js_def)
  have "compileContainerChildren toy_compiler ?g [] (None, []) (?m # []) sample_cstate =
          (case compileNode toy_compiler ?g ?m sample_cstate of
             (Inl e, st2) \<Rightarrow> (Inl e, st2)
           | (Inr item, st2) \<Rightarrow>
               compileContainerChildren toy_compiler ?g []
                 (fst ((None, []) :: block), snd ((None, []) :: block) @ [item]) [] st2)"
    using inst4 scope4 by blast
  also have "\<dots> = (Inr [(None, [AtJs (at_js 30 ''const c = 3'') 4 0 (guest 30 False ''const c = 3'') None])],
        sample_cstate)"
    by code_simp
  finally have same: "compileContainerChildren toy_compiler ?g [] (None, []) [?m] sample_cstate
     = (Inr [(None, [AtJs (at_js 30 ''const c = 3'') 4 0 (guest 30 False ''const c = 3'') None])],
        sample_cstate)" .
  have new0: "cached sample_cstate \<and> globalScope ?cx \<noteq> node_file ?n"
    using h0 by (simp add: node_file_def at_js_def)
  have "node_file ?n \<in> set (made (snd (compileContainerChildren toy_compiler ?cx [] (None, [])
          (?n # tl three_parts) sample_cstate)))"
    using inst0 new0 by blast
  moreover have nf: "node_file ?n = Some ''1.css''" by (simp add: node_file_def at_js_def)
  ultimately have new: "Some ''1.css'' \<in> set (made (snd (compileContainerChildren toy_compiler ?cx [] (None, [])
          three_parts sample_cstate)))"
    by (simp only: parts[symmetric])
  have whole: "compile toy_compiler ?root = (Inr (Some (Prog ?root False True (tl ?blocks))), ?st2)"
    by code_simp
  have all0: "compile toy_compiler ?root = (Inr (Some (Prog ?root False True (tl ?blocks))), ?st2)
      \<and> ?d \<in> set (container_nodes ?root) \<and> node_file ?d \<noteq> Some []"
    using whole by (simp add: three_parts_def node_file_def in_file_def)
  have "node_file ?d \<in> set (made ?st2)" using inst5 all0 by blast
  then have all: "Some ''2.css'' \<in> set [Some ''1.css'', Some ''2.css'']"
    by (simp add: node_file_def in_file_def)
  show ?thesis using run trig same d new all c2 l0' l2 by (simp only: simp_thms)
qed

text \<open>
  Claim C5 as stated fails in what triggers the construction: it is not the first
  fragment of a scope.  For a style sheet without any fragment the maker is called and
  nothing else is compiled; and when a declaration comes before the first fragment of
  \<^verbatim>\<open>1.css\<close> the bindings are made at the declaration.
\<close>

theorem provider_called_without_fragment:
  "compile toy_compiler
     (OfRoot None empty_raws
        [Rule (Some (in_file ''1.css'' 0)) empty_raws ''h1''
           [Decl (Some (in_file ''1.css'' 5)) empty_raws ''color'' ''black'']])
     = (Inr None,
        \<lparr>globalEnv = [(Some ''1.css'', [(''__filename'', JStr ''1.css''), (''loaded'', JNum 0)])],
         made = [Some ''1.css'']\<rparr>)
   \<and> compileContainerChildren toy_compiler \<lparr>globalScope = Some [], inAtJs = False\<rparr> [] (None, [])
       [Decl (Some (in_file ''1.css'' 0)) empty_raws ''color'' ''black'', at_js 20 ''const a = 1'']
       sample_cstate
     = (Inr [(None, []),
             (Some [(''__filename'', JStr ''1.css''), (''loaded'', JNum 0)],
              [Child (Decl (Some (in_file ''1.css'' 0)) empty_raws ''color'' ''black''),
               AtJs (at_js 20 ''const a = 1'') 4 0 (guest 20 False ''const a = 1'') None])],
        \<lparr>globalEnv = [(Some ''1.css'', [(''__filename'', JStr ''1.css''), (''loaded'', JNum 0)])],
         made = [Some ''1.css'']\<rparr>)
   \<and> snd (compileContainerChildren toy_compiler \<lparr>globalScope = Some [], inAtJs = False\<rparr> [] (None, [])
       [Decl (Some (in_file ''1.css'' 0)) empty_raws ''color'' ''black''] sample_cstate)
     = \<lparr>globalEnv = [(Some ''1.css'', [(''__filename'', JStr ''1.css''), (''loaded'', JNum 0)])],
         made = [Some ''1.css'']\<rparr>"
  by code_simp

end
